theory Spec2Isabelle
  imports Complex_Main
begin

text \<open>
  The stream parser of the simulation front end: class \<open>OutputParser\<close> (TypeScript), which
  turns the lines of the agent service's text output into country utterances and analyst
  updates. The class is embedded function by function, under the names of the source; its
  fields are a record that every method takes and returns; an exception is a value of type
  \<open>exn\<close>, and a method that may throw returns a sum. The built-ins of the host language
  that the class calls (\<open>trim\<close>, \<open>toLowerCase\<close>, \<open>startsWith\<close>, regular-expression matching,
  \<open>JSON.parse\<close>, property reads, truthiness) are modelled after ECMAScript. The clock
  (\<open>new Date()\<close>) is a parameter of the call that reads it.
\<close>

section \<open>Strings of the host language\<close>

text \<open>
  A JavaScript string is a sequence of UTF-16 code units. A code unit is modelled by its
  numeric value (a natural number below 65536), a string by the list of its code units.
  String literals of the source are written \<open>codes ''...''\<close>.
\<close>

type_synonym ustring = "nat list"

definition codes :: "string \<Rightarrow> ustring" where
  "codes s = map of_char s"

text \<open>
  \<open>String.prototype.trim\<close> and the regular-expression class \<open>\s\<close> use the same set:
  WhiteSpace together with LineTerminator of ECMAScript.
\<close>

definition is_space :: "nat \<Rightarrow> bool" where
  "is_space c \<longleftrightarrow>
     c = 9 \<or> c = 10 \<or> c = 11 \<or> c = 12 \<or> c = 13 \<or> c = 32 \<or> c = 160 \<or> c = 5760
     \<or> (8192 \<le> c \<and> c \<le> 8202) \<or> c = 8232 \<or> c = 8233 \<or> c = 8239 \<or> c = 8287
     \<or> c = 12288 \<or> c = 65279"

text \<open>The regular-expression atom \<open>.\<close> (no \<open>s\<close> flag) matches everything but a line terminator.\<close>

definition is_line_terminator :: "nat \<Rightarrow> bool" where
  "is_line_terminator c \<longleftrightarrow> c = 10 \<or> c = 13 \<or> c = 8232 \<or> c = 8233"

definition trim :: "ustring \<Rightarrow> ustring" where
  "trim s = rev (dropWhile is_space (rev (dropWhile is_space s)))"

text \<open>
  Case folding. Under the \<open>i\<close> flag (without \<open>u\<close>) a pattern character and an input code unit
  match when their canonical forms agree; the canonical form is the upper-case mapping, except
  that a code unit outside ASCII is never mapped into ASCII. All patterns of the source are
  ASCII, so only the ASCII part of the mapping can decide a comparison; the same holds for
  \<open>toLowerCase\<close>, whose results are only compared with ASCII literals that contain no \<open>k\<close>
  (the one ASCII letter that is the lower case of a code unit outside ASCII).
\<close>

definition canonicalize :: "nat \<Rightarrow> nat" where
  "canonicalize c = (if 97 \<le> c \<and> c \<le> 122 then c - 32 else c)"

definition lower_unit :: "nat \<Rightarrow> nat" where
  "lower_unit c = (if 65 \<le> c \<and> c \<le> 90 then c + 32 else c)"

definition toLowerCase :: "ustring \<Rightarrow> ustring" where
  "toLowerCase s = map lower_unit s"

text \<open>
  \<open>ci_prefix p xs\<close>: the literal pattern \<open>p\<close>, matched case-insensitively at the start of
  \<open>xs\<close>; the result is the input that follows the match.
\<close>

fun ci_prefix :: "string \<Rightarrow> ustring \<Rightarrow> ustring option" where
  "ci_prefix [] xs = Some xs"
| "ci_prefix (p # ps) [] = None"
| "ci_prefix (p # ps) (x # xs) =
     (if canonicalize x = canonicalize (of_char p) then ci_prefix ps xs else None)"

text \<open>An alternation tries its branches in order and takes the first that succeeds.\<close>

fun alternation :: "('p \<Rightarrow> 'r option) \<Rightarrow> 'p list \<Rightarrow> 'r option" where
  "alternation f [] = None"
| "alternation f (p # ps) = (case f p of Some r \<Rightarrow> Some r | None \<Rightarrow> alternation f ps)"

text \<open>
  An unanchored regular expression is tried at position 0, 1, ... of the input and the
  leftmost success wins. The result carries the text before the match.
\<close>

fun leftmost :: "(ustring \<Rightarrow> 'r option) \<Rightarrow> ustring \<Rightarrow> (ustring \<times> 'r) option" where
  "leftmost m [] = (case m [] of Some r \<Rightarrow> Some ([], r) | None \<Rightarrow> None)"
| "leftmost m (x # xs) =
     (case m (x # xs) of
        Some r \<Rightarrow> Some ([], r)
      | None \<Rightarrow> (case leftmost m xs of Some (pre, r) \<Rightarrow> Some (x # pre, r) | None \<Rightarrow> None))"

section \<open>JSON.parse\<close>

text \<open>
  \<open>JSON.parse\<close> accepts exactly the texts of the JSON grammar (one value, with white space
  around it) and throws a \<open>SyntaxError\<close> on every other text. Limits of an engine (nesting
  depth, string length) are not modelled.

  The parsed value: a number is kept as the exact value its literal denotes; the rounding to
  an IEEE double is modelled only where it decides a branch of the program (truthiness).
  An object keeps its members in source order; a later member with the same key wins.
\<close>

datatype json =
    JNull
  | JBool bool
  | JNumber rat
  | JString ustring
  | JArray "json list"
  | JObject "(ustring \<times> json) list"

datatype exn = SyntaxError | TypeError

text \<open>Number literals: \<open>-? (0 | [1-9][0-9]*) (. [0-9]+)? ([eE] [+-]? [0-9]+)?\<close>.\<close>

datatype numphase = NMinus | NZero | NInt | NDot | NFrac | NE | NESign | NExp

record numlit =
  n_neg :: bool
  n_mant :: nat
  n_frac :: nat
  n_eneg :: bool
  n_exp :: nat

definition is_digit :: "nat \<Rightarrow> bool" where
  "is_digit c \<longleftrightarrow> 48 \<le> c \<and> c \<le> 57"

definition num_zero :: numlit where
  "num_zero = \<lparr>n_neg = False, n_mant = 0, n_frac = 0, n_eneg = False, n_exp = 0\<rparr>"

definition num_start :: "nat \<Rightarrow> (numphase \<times> numlit) option" where
  "num_start c =
     (if c = 45 then Some (NMinus, num_zero\<lparr>n_neg := True\<rparr>)
      else if c = 48 then Some (NZero, num_zero)
      else if is_digit c then Some (NInt, num_zero\<lparr>n_mant := c - 48\<rparr>)
      else None)"

fun num_step :: "numphase \<Rightarrow> numlit \<Rightarrow> nat \<Rightarrow> (numphase \<times> numlit) option" where
  "num_step NMinus a c =
     (if c = 48 then Some (NZero, a)
      else if is_digit c then Some (NInt, a\<lparr>n_mant := c - 48\<rparr>)
      else None)"
| "num_step NZero a c =
     (if c = 46 then Some (NDot, a)
      else if c = 101 \<or> c = 69 then Some (NE, a)
      else None)"
| "num_step NInt a c =
     (if is_digit c then Some (NInt, a\<lparr>n_mant := 10 * n_mant a + (c - 48)\<rparr>)
      else if c = 46 then Some (NDot, a)
      else if c = 101 \<or> c = 69 then Some (NE, a)
      else None)"
| "num_step NDot a c =
     (if is_digit c
      then Some (NFrac, a\<lparr>n_mant := 10 * n_mant a + (c - 48), n_frac := n_frac a + 1\<rparr>)
      else None)"
| "num_step NFrac a c =
     (if is_digit c
      then Some (NFrac, a\<lparr>n_mant := 10 * n_mant a + (c - 48), n_frac := n_frac a + 1\<rparr>)
      else if c = 101 \<or> c = 69 then Some (NE, a)
      else None)"
| "num_step NE a c =
     (if c = 43 then Some (NESign, a)
      else if c = 45 then Some (NESign, a\<lparr>n_eneg := True\<rparr>)
      else if is_digit c then Some (NExp, a\<lparr>n_exp := c - 48\<rparr>)
      else None)"
| "num_step NESign a c =
     (if is_digit c then Some (NExp, a\<lparr>n_exp := c - 48\<rparr>) else None)"
| "num_step NExp a c =
     (if is_digit c then Some (NExp, a\<lparr>n_exp := 10 * n_exp a + (c - 48)\<rparr>) else None)"

definition num_complete :: "numphase \<Rightarrow> bool" where
  "num_complete ph \<longleftrightarrow> ph = NZero \<or> ph = NInt \<or> ph = NFrac \<or> ph = NExp"

definition num_value :: "numphase \<Rightarrow> numlit \<Rightarrow> json option" where
  "num_value ph a =
     (if num_complete ph
      then Some (JNumber ((if n_neg a then - 1 else 1) * of_nat (n_mant a)
                   * (if n_eneg a then 1 / 10 ^ n_exp a else 10 ^ n_exp a) / 10 ^ n_frac a))
      else None)"

text \<open>String escapes and hexadecimal digits.\<close>

definition escape_unit :: "nat \<Rightarrow> nat option" where
  "escape_unit c =
     (if c = 34 then Some 34 else if c = 92 then Some 92 else if c = 47 then Some 47
      else if c = 98 then Some 8 else if c = 102 then Some 12 else if c = 110 then Some 10
      else if c = 114 then Some 13 else if c = 116 then Some 9 else None)"

definition hex_value :: "nat \<Rightarrow> nat option" where
  "hex_value c =
     (if 48 \<le> c \<and> c \<le> 57 then Some (c - 48)
      else if 97 \<le> c \<and> c \<le> 102 then Some (c - 87)
      else if 65 \<le> c \<and> c \<le> 70 then Some (c - 55)
      else None)"

definition json_ws :: "nat \<Rightarrow> bool" where
  "json_ws c \<longleftrightarrow> c = 9 \<or> c = 10 \<or> c = 13 \<or> c = 32"

text \<open>
  The grammar is recognised by a pushdown automaton that reads one code unit at a time.
  The stack holds the containers that are open; the mode says what may come next.
\<close>

datatype frame =
    FObj "(ustring \<times> json) list"
  | FKey "(ustring \<times> json) list" ustring
  | FArr "json list"

datatype mode =
    Value
  | ArrFirst
  | ObjFirst
  | ObjKey
  | Colon ustring
  | After json
  | Str bool ustring
  | Esc bool ustring
  | Uni bool ustring "nat list"
  | Lit string json
  | Num numphase numlit
  | Bad

type_synonym pda = "mode \<times> frame list"

definition start_value :: "frame list \<Rightarrow> nat \<Rightarrow> pda" where
  "start_value st c =
     (if c = 123 then (ObjFirst, FObj [] # st)
      else if c = 91 then (ArrFirst, FArr [] # st)
      else if c = 34 then (Str False [], st)
      else if c = 116 then (Lit ''rue'' (JBool True), st)
      else if c = 102 then (Lit ''alse'' (JBool False), st)
      else if c = 110 then (Lit ''ull'' JNull, st)
      else (case num_start c of Some (ph, a) \<Rightarrow> (Num ph a, st) | None \<Rightarrow> (Bad, st)))"

fun after_value :: "json \<Rightarrow> frame list \<Rightarrow> nat \<Rightarrow> pda" where
  "after_value v [] c = (if json_ws c then (After v, []) else (Bad, []))"
| "after_value v (FKey ms k # st) c =
     (if json_ws c then (After v, FKey ms k # st)
      else if c = 44 then (ObjKey, FObj (ms @ [(k, v)]) # st)
      else if c = 125 then (After (JObject (ms @ [(k, v)])), st)
      else (Bad, FKey ms k # st))"
| "after_value v (FArr es # st) c =
     (if json_ws c then (After v, FArr es # st)
      else if c = 44 then (Value, FArr (es @ [v]) # st)
      else if c = 93 then (After (JArray (es @ [v])), st)
      else (Bad, FArr es # st))"
| "after_value v (FObj ms # st) c = (Bad, FObj ms # st)"

fun close_empty :: "nat \<Rightarrow> frame list \<Rightarrow> pda" where
  "close_empty c (FObj ms # st) = (if c = 125 then (After (JObject ms), st) else (Bad, FObj ms # st))"
| "close_empty c (FArr es # st) = (if c = 93 then (After (JArray es), st) else (Bad, FArr es # st))"
| "close_empty c st = (Bad, st)"

fun key_done :: "ustring \<Rightarrow> frame list \<Rightarrow> pda" where
  "key_done k (FObj ms # st) = (Value, FKey ms k # st)"
| "key_done k st = (Bad, st)"

fun step :: "pda \<Rightarrow> nat \<Rightarrow> pda" where
  "step (Value, st) c = (if json_ws c then (Value, st) else start_value st c)"
| "step (ArrFirst, st) c =
     (if json_ws c then (ArrFirst, st)
      else if c = 93 then close_empty c st
      else start_value st c)"
| "step (ObjFirst, st) c =
     (if json_ws c then (ObjFirst, st)
      else if c = 125 then close_empty c st
      else if c = 34 then (Str True [], st)
      else (Bad, st))"
| "step (ObjKey, st) c =
     (if json_ws c then (ObjKey, st)
      else if c = 34 then (Str True [], st)
      else (Bad, st))"
| "step (Colon k, st) c =
     (if json_ws c then (Colon k, st)
      else if c = 58 then key_done k st
      else (Bad, st))"
| "step (After v, st) c = after_value v st c"
| "step (Str is_key acc, st) c =
     (if c = 34 then (if is_key then (Colon acc, st) else (After (JString acc), st))
      else if c = 92 then (Esc is_key acc, st)
      else if c < 32 then (Bad, st)
      else (Str is_key (acc @ [c]), st))"
| "step (Esc is_key acc, st) c =
     (case escape_unit c of
        Some e \<Rightarrow> (Str is_key (acc @ [e]), st)
      | None \<Rightarrow> if c = 117 then (Uni is_key acc [], st) else (Bad, st))"
| "step (Uni is_key acc hs, st) c =
     (case hex_value c of
        None \<Rightarrow> (Bad, st)
      | Some h \<Rightarrow>
          if length hs = 3
          then (Str is_key (acc @ [foldl (\<lambda>n d. 16 * n + d) 0 (hs @ [h])]), st)
          else (Uni is_key acc (hs @ [h]), st))"
| "step (Lit rest v, st) c =
     (case rest of
        [] \<Rightarrow> (Bad, st)
      | r # rest' \<Rightarrow>
          if c = of_char r then (if rest' = [] then (After v, st) else (Lit rest' v, st))
          else (Bad, st))"
| "step (Num ph a, st) c =
     (case num_step ph a c of
        Some (ph', a') \<Rightarrow> (Num ph' a', st)
      | None \<Rightarrow> (case num_value ph a of Some v \<Rightarrow> after_value v st c | None \<Rightarrow> (Bad, st)))"
| "step (Bad, st) c = (Bad, st)"

fun finish :: "pda \<Rightarrow> json option" where
  "finish (After v, []) = Some v"
| "finish (Num ph a, []) = num_value ph a"
| "finish other = None"

definition JSON_parse :: "ustring \<Rightarrow> exn + json" where
  "JSON_parse text =
     (case finish (foldl step (Value, []) text) of
        None \<Rightarrow> Inl SyntaxError
      | Some v \<Rightarrow> Inr v)"

text \<open>
  Property read \<open>parsed.key\<close>. \<open>None\<close> is \<open>undefined\<close>. Reading a property of \<open>null\<close>
  throws a TypeError. The keys the program reads are defined by no built-in prototype, so
  only an object's own members can answer.
\<close>

fun get_prop :: "json \<Rightarrow> ustring \<Rightarrow> exn + json option" where
  "get_prop JNull k = Inl TypeError"
| "get_prop (JObject ms) k = Inr (map_of (rev ms) k)"
| "get_prop other k = Inr None"

text \<open>
  Truthiness. A number is falsy when its double is zero: that is when the literal's value
  is at most \<open>2^-1075\<close> in magnitude (it then rounds to zero).
\<close>

fun truthy :: "json option \<Rightarrow> bool" where
  "truthy None = False"
| "truthy (Some JNull) = False"
| "truthy (Some (JBool b)) = b"
| "truthy (Some (JNumber q)) = (1 / 2 ^ 1075 < \<bar>q\<bar>)"
| "truthy (Some (JString s)) = (s \<noteq> [])"
| "truthy (Some (JArray es)) = True"
| "truthy (Some (JObject ms)) = True"

section \<open>The output parser\<close>

text \<open>
  The records of the source. The static types of TypeScript are erased at run time: the
  \<open>iteration\<close> of an analyst response is whatever value the JSON text gave it, so
  \<open>currentIteration\<close> and the \<open>iteration\<close> of an utterance hold a JSON value (\<open>None\<close> is
  \<open>undefined\<close>); the initial value is the number 1. An analyst response is the parsed
  object as it is.
\<close>

record CountryResponse =
  country :: ustring
  message :: ustring
  iteration :: "json option"
  timestamp :: nat

record OutputParser =
  jsonBuffer :: ustring
  inJsonBlock :: bool
  currentResponse :: "CountryResponse option"
  currentIteration :: "json option"

datatype emitted = Country CountryResponse | Analyst json

definition new_OutputParser :: OutputParser where
  "new_OutputParser =
     \<lparr>jsonBuffer = [], inJsonBlock = False, currentResponse = None,
      currentIteration = Some (JNumber 1)\<rparr>"

definition country_names :: "string list" where
  "country_names = [''USA'', ''China'', ''Russia'', ''EU'']"

text \<open>
  \<open>/\[(USA|China|Russia|EU)\]/i\<close> at one position: the captured name and the input after
  the closing bracket.
\<close>

definition marker_at :: "ustring \<Rightarrow> (ustring \<times> ustring) option" where
  "marker_at xs =
     alternation
       (\<lambda>p. case ci_prefix (''['' @ p @ '']'') xs of
              Some rest \<Rightarrow> Some (take (length p) (tl xs), rest)
            | None \<Rightarrow> None)
       country_names"

definition COUNTRY_PATTERN :: "ustring \<Rightarrow> (ustring \<times> ustring \<times> ustring) option" where
  "COUNTRY_PATTERN line = leftmost marker_at line"

text \<open>
  \<open>/\[(USA|China|Russia|EU)\]\s*said:\s*(.*)/i\<close> at one position: the captured name and
  the second group. Both \<open>\s*\<close> are greedy and what follows them never starts with white
  space or cannot fail, so no shorter run is ever tried with success.
\<close>

definition said_at :: "ustring \<Rightarrow> (ustring \<times> ustring) option" where
  "said_at xs =
     alternation
       (\<lambda>p. case ci_prefix (''['' @ p @ '']'') xs of
              None \<Rightarrow> None
            | Some rest \<Rightarrow>
                (case ci_prefix ''said:'' (dropWhile is_space rest) of
                   None \<Rightarrow> None
                 | Some rest' \<Rightarrow>
                     Some (take (length p) (tl xs),
                           takeWhile (\<lambda>c. \<not> is_line_terminator c) (dropWhile is_space rest'))))
       country_names"

definition SAID_PATTERN :: "ustring \<Rightarrow> (ustring \<times> ustring \<times> ustring) option" where
  "SAID_PATTERN line = leftmost said_at line"

definition normalizeCountryName :: "ustring \<Rightarrow> ustring" where
  "normalizeCountryName name =
     (let normalized = toLowerCase name in
      if normalized = codes ''usa'' \<or> normalized = codes ''us''
         \<or> normalized = codes ''united states'' then codes ''USA''
      else if normalized = codes ''china'' \<or> normalized = codes ''prc'' then codes ''China''
      else if normalized = codes ''russia'' \<or> normalized = codes ''russian federation''
      then codes ''Russia''
      else if normalized = codes ''eu'' \<or> normalized = codes ''european union''
      then codes ''EU''
      else name)"

definition systemPatterns :: "string list" where
  "systemPatterns =
     [''Running agent'', ''type exit to exit'', ''[user]:'', ''[system]:'', ''Session'',
      ''Iteration'']"

definition isSystemMessage :: "ustring \<Rightarrow> bool" where
  "isSystemMessage line = list_ex (\<lambda>p. ci_prefix p line \<noteq> None) systemPatterns"

text \<open>
  The body of the \<open>try\<close> block of \<open>tryParseAnalystJson\<close>: \<open>Inl\<close> is an exception thrown
  inside it, \<open>Inr (Some parsed, _)\<close> the \<open>return parsed\<close>, \<open>Inr (None, _)\<close> leaving the block
  at its end.
\<close>

definition is_analyst :: "json \<Rightarrow> exn + bool" where
  "is_analyst parsed =
     (case get_prop parsed (codes ''iteration'') of
        Inl e \<Rightarrow> Inl e
      | Inr it \<Rightarrow>
          if it = None then Inr False
          else (case get_prop parsed (codes ''analysis'') of
                  Inl e \<Rightarrow> Inl e
                | Inr an \<Rightarrow>
                    if \<not> truthy an then Inr False
                    else (case get_prop parsed (codes ''norm_updates'') of
                            Inl e \<Rightarrow> Inl e
                          | Inr nu \<Rightarrow>
                              if \<not> truthy nu then Inr False
                              else (case get_prop parsed (codes ''reasoning'') of
                                      Inl e \<Rightarrow> Inl e
                                    | Inr re \<Rightarrow> Inr (truthy re)))))"

definition try_block :: "OutputParser \<Rightarrow> exn + (json option \<times> OutputParser)" where
  "try_block s =
     (case JSON_parse (jsonBuffer s) of
        Inl e \<Rightarrow> Inl e
      | Inr parsed \<Rightarrow>
          (case is_analyst parsed of
             Inl e \<Rightarrow> Inl e
           | Inr ok \<Rightarrow>
               if ok then Inr (Some parsed, s\<lparr>inJsonBlock := False, jsonBuffer := []\<rparr>)
               else Inr (None, s)))"

definition tryParseAnalystJson ::
  "OutputParser \<Rightarrow> ustring \<Rightarrow> exn + (json option \<times> OutputParser)" where
  "tryParseAnalystJson s line =
     (if take 1 line = [123] \<and> \<not> inJsonBlock s
      then Inr (None, s\<lparr>inJsonBlock := True, jsonBuffer := line\<rparr>)
      else if inJsonBlock s then
        (let s1 = s\<lparr>jsonBuffer := jsonBuffer s @ 10 # line\<rparr>;
             openBraces = count_list (jsonBuffer s1) 123;
             closeBraces = count_list (jsonBuffer s1) 125
         in if openBraces > 0 \<and> openBraces = closeBraces
            then (case try_block s1 of
                    Inr r \<Rightarrow> Inr r
                  | Inl e \<Rightarrow> Inr (None, s1\<lparr>inJsonBlock := False, jsonBuffer := []\<rparr>))
            else Inr (None, s1))
      else Inr (None, s))"

definition tryParseCountryResponse ::
  "nat \<Rightarrow> OutputParser \<Rightarrow> ustring \<Rightarrow> CountryResponse option \<times> OutputParser" where
  "tryParseCountryResponse now s line =
     (case COUNTRY_PATTERN line of
        Some (before, name, rest) \<Rightarrow>
          (let completedResponse = currentResponse s;
               msg = (case SAID_PATTERN line of
                        Some (b, n, said) \<Rightarrow> trim said
                      | None \<Rightarrow> trim (before @ rest))
           in (completedResponse,
               s\<lparr>currentResponse :=
                    Some \<lparr>country = normalizeCountryName name, message = msg,
                          iteration = currentIteration s, timestamp = now\<rparr>\<rparr>))
      | None \<Rightarrow>
          (case currentResponse s of
             Some r \<Rightarrow>
               if trim line \<noteq> [] \<and> \<not> inJsonBlock s \<and> \<not> isSystemMessage line
               then (None, s\<lparr>currentResponse := Some (r\<lparr>message := message r @ 10 # trim line\<rparr>)\<rparr>)
               else (None, s)
           | None \<Rightarrow> (None, s)))"

definition parseLine ::
  "nat \<Rightarrow> OutputParser \<Rightarrow> ustring \<Rightarrow> exn + (emitted option \<times> OutputParser)" where
  "parseLine now s line =
     (let trimmedLine = trim line in
      if trimmedLine = [] then Inr (None, s)
      else (case tryParseAnalystJson s trimmedLine of
              Inl e \<Rightarrow> Inl e
            | Inr (Some analystResponse, s1) \<Rightarrow>
                (case get_prop analystResponse (codes ''iteration'') of
                   Inl e \<Rightarrow> Inl e
                 | Inr it \<Rightarrow> Inr (Some (Analyst analystResponse), s1\<lparr>currentIteration := it\<rparr>))
            | Inr (None, s1) \<Rightarrow>
                (case tryParseCountryResponse now s1 line of
                   (Some countryResponse, s2) \<Rightarrow> Inr (Some (Country countryResponse), s2)
                 | (None, s2) \<Rightarrow> Inr (None, s2))))"

definition finalize :: "OutputParser \<Rightarrow> CountryResponse option \<times> OutputParser" where
  "finalize s =
     (case currentResponse s of
        Some response \<Rightarrow> (Some response, s\<lparr>currentResponse := None\<rparr>)
      | None \<Rightarrow> (None, s))"

text \<open>
  One parser instance fed a sequence of lines, one \<open>parseLine\<close> call per line, each with the
  clock reading of that call; the result lists what the calls returned, in order.
\<close>

fun feedLines ::
  "OutputParser \<Rightarrow> (nat \<times> ustring) list \<Rightarrow> exn + (emitted option list \<times> OutputParser)" where
  "feedLines s [] = Inr ([], s)"
| "feedLines s ((now, line) # rest) =
     (case parseLine now s line of
        Inl e \<Rightarrow> Inl e
      | Inr (out, s1) \<Rightarrow>
          (case feedLines s1 rest of
             Inl e \<Rightarrow> Inl e
           | Inr (outs, s2) \<Rightarrow> Inr (out # outs, s2)))"

text \<open>\<open>reset()\<close> puts every field back to its initial value.\<close>

definition reset :: "OutputParser \<Rightarrow> OutputParser" where
  "reset s = s\<lparr>jsonBuffer := [], inJsonBlock := False, currentResponse := None,
               currentIteration := Some (JNumber 1)\<rparr>"

text \<open>
  The states a parser instance can be in: it is constructed, and then only its methods
  change it.
\<close>

inductive reachable :: "OutputParser \<Rightarrow> bool" where
  reachable_new: "reachable new_OutputParser"
| reachable_parseLine: "reachable s \<Longrightarrow> parseLine now s line = Inr (out, s') \<Longrightarrow> reachable s'"
| reachable_finalize: "reachable s \<Longrightarrow> finalize s = (r, s') \<Longrightarrow> reachable s'"
| reachable_reset: "reachable s \<Longrightarrow> reachable (reset s)"

definition canonical_names :: "ustring set" where
  "canonical_names = {codes ''USA'', codes ''China'', codes ''Russia'', codes ''EU''}"

section \<open>Test data of the specification\<close>

text \<open>
  Scenario A, with the analyst update it is expected to yield, and the malformed block
  \<open>{\<close>, \<open>not valid json\<close>, \<open>}\<close>.
\<close>

definition scenario_A :: "ustring list" where
  \<open>scenario_A =
     [codes ''[USA] said: We condemn this.'', codes ''[China] said: We reject this.'',
      codes ''{'', codes ''"iteration": 1,'', codes ''"analysis": "test",'',
      codes ''"norm_updates": {},'', codes ''"reasoning": {}'', codes ''}'']\<close>

definition update_A :: json where
  \<open>update_A =
     JObject [(codes ''iteration'', JNumber 1), (codes ''analysis'', JString (codes ''test'')),
              (codes ''norm_updates'', JObject []), (codes ''reasoning'', JObject [])]\<close>

definition malformed_block :: "ustring list" where
  \<open>malformed_block = [codes ''{'', codes ''not valid json'', codes ''}'']\<close>

text \<open>
  An analyst update written on one line, the same naming a country in brackets, and lines
  that may follow.
\<close>

definition single_line_update :: ustring where
  \<open>single_line_update =
     codes ''{"iteration": 2, "analysis": "calm", "norm_updates": {}, "reasoning": {}}''\<close>

definition update_naming_usa :: ustring where
  \<open>update_naming_usa =
     codes ''{"iteration": 2, "analysis": "[USA] acts", "norm_updates": {}, "reasoning": {}}''\<close>

definition later_lines :: "(nat \<times> ustring) list" where
  \<open>later_lines =
     [(1, codes ''x''), (2, codes ''{''), (3, codes ''"iteration": 3,''),
      (4, codes ''"analysis": "t",''), (5, codes ''"norm_updates": {},''),
      (6, codes ''"reasoning": {}''), (7, codes ''}'')]\<close>

section \<open>Evaluation\<close>

lemmas eval_defs = codes_def new_OutputParser_def parseLine_def tryParseAnalystJson_def
  tryParseCountryResponse_def try_block_def is_analyst_def JSON_parse_def COUNTRY_PATTERN_def
  SAID_PATTERN_def marker_at_def said_at_def country_names_def trim_def is_space_def
  is_line_terminator_def canonicalize_def normalizeCountryName_def toLowerCase_def lower_unit_def
  isSystemMessage_def systemPatterns_def start_value_def num_start_def num_value_def
  num_complete_def is_digit_def num_zero_def json_ws_def escape_unit_def hex_value_def finalize_def

section \<open>Pattern matching\<close>

lemma canonicalize_lower: "canonicalize x = canonicalize y \<Longrightarrow> lower_unit x = lower_unit y"
  by (auto simp: canonicalize_def lower_unit_def split: if_splits)

lemma ci_prefix_split:
  "ci_prefix p xs = Some r \<Longrightarrow>
     \<exists>m. xs = m @ r \<and> length m = length p \<and> toLowerCase m = toLowerCase (codes p)"
proof (induction p xs rule: ci_prefix.induct)
  case (1 xs)
  then show ?case by (simp add: toLowerCase_def codes_def)
next
  case (2 p ps)
  then show ?case by simp
next
  case (3 p ps x xs)
  from "3.prems" have c: "canonicalize x = canonicalize (of_char p)" and r: "ci_prefix ps xs = Some r"
    by (auto split: if_splits)
  from "3.IH"[OF c r] obtain m where m: "xs = m @ r" "length m = length ps"
    "toLowerCase m = toLowerCase (codes ps)" by blast
  have "x # xs = (x # m) @ r" "length (x # m) = length (p # ps)"
    "toLowerCase (x # m) = toLowerCase (codes (p # ps))"
    using m canonicalize_lower[OF c] by (simp_all add: toLowerCase_def codes_def)
  then show ?case by blast
qed

lemma alternation_Some:
  "alternation f ps = Some r \<Longrightarrow> \<exists>p. p \<in> set ps \<and> f p = Some r"
  by (induction ps) (auto split: option.splits)

lemma leftmost_Some:
  "leftmost m xs = Some (pre, r) \<Longrightarrow> \<exists>suf. xs = pre @ suf \<and> m suf = Some r"
  by (induction xs arbitrary: pre) (auto split: option.splits)

lemma lower_unit_bracket: "lower_unit a = 91 \<Longrightarrow> a = 91" "lower_unit b = 93 \<Longrightarrow> b = 93"
  by (auto simp: lower_unit_def split: if_splits)

lemma marker_at_shape:
  assumes "marker_at xs = Some (name, rest)"
  shows "xs = 91 # name @ 93 # rest \<and>
         (\<exists>p. p \<in> set country_names \<and> toLowerCase name = toLowerCase (codes p))"
proof -
  from assms obtain p where p: "p \<in> set country_names"
    and c: "ci_prefix (''['' @ p @ '']'') xs = Some rest" and n: "name = take (length p) (tl xs)"
    unfolding marker_at_def by (auto dest!: alternation_Some split: option.splits)
  from ci_prefix_split[OF c] obtain m where m: "xs = m @ rest" "length m = length p + 2"
    "toLowerCase m = toLowerCase (codes (''['' @ p @ '']''))" by auto
  from m(2) obtain a tl_m where a: "m = a # tl_m" "length tl_m = length p + 1"
    by (cases m) auto
  from a(2) obtain mid b where b: "tl_m = mid @ [b]" "length mid = length p"
    by (cases tl_m rule: rev_cases) auto
  from a b have mid: "m = a # mid @ [b]" "length mid = length p" by simp_all
  from m(3) mid have l: "lower_unit a = 91" "toLowerCase mid = toLowerCase (codes p)" "lower_unit b = 93"
    by (simp_all add: toLowerCase_def codes_def lower_unit_def)
  from n m(1) mid have "name = mid" by simp
  with l m(1) mid lower_unit_bracket p show ?thesis by auto
qed

lemma normalize_canonical:
  assumes "p \<in> set country_names" "toLowerCase name = toLowerCase (codes p)"
  shows "normalizeCountryName name = codes p"
  using assms
  by (auto simp: country_names_def normalizeCountryName_def codes_def toLowerCase_def lower_unit_def)

lemma COUNTRY_PATTERN_shape:
  assumes "COUNTRY_PATTERN line = Some (before, name, rest)"
  shows "line = before @ 91 # name @ 93 # rest"
    and "\<exists>p. p \<in> set country_names \<and> normalizeCountryName name = codes p"
proof -
  from assms obtain suf where s: "line = before @ suf" "marker_at suf = Some (name, rest)"
    unfolding COUNTRY_PATTERN_def by (auto dest: leftmost_Some)
  from marker_at_shape[OF s(2)] s(1) show "line = before @ 91 # name @ 93 # rest" by simp
  from marker_at_shape[OF s(2)] normalize_canonical
  show "\<exists>p. p \<in> set country_names \<and> normalizeCountryName name = codes p" by blast
qed








section \<open>One call of parseLine\<close>

lemma is_analyst_iteration:
  "is_analyst a = Inr True \<Longrightarrow> \<exists>v. get_prop a (codes ''iteration'') = Inr (Some v)"
  by (auto simp: is_analyst_def split: sum.splits if_splits)

lemma try_block_Some:
  "try_block s = Inr (Some a, s') \<Longrightarrow>
     s' = s\<lparr>inJsonBlock := False, jsonBuffer := []\<rparr> \<and> is_analyst a = Inr True
     \<and> JSON_parse (jsonBuffer s) = Inr a"
  by (auto simp: try_block_def split: sum.splits if_splits)

lemma try_block_None:
  "try_block s = Inr (None, s') \<Longrightarrow> s' = s"
  by (auto simp: try_block_def split: sum.splits if_splits)

lemma tryParseAnalystJson_cases:
  "\<exists>r s'. tryParseAnalystJson s l = Inr (r, s')
      \<and> currentResponse s' = currentResponse s \<and> currentIteration s' = currentIteration s
      \<and> (\<forall>a. r = Some a \<longrightarrow>
            inJsonBlock s \<and> \<not> inJsonBlock s' \<and> jsonBuffer s' = []
            \<and> JSON_parse (jsonBuffer s @ 10 # l) = Inr a
            \<and> (\<exists>v. get_prop a (codes ''iteration'') = Inr (Some v)))"
proof (cases "take 1 l = [123] \<and> \<not> inJsonBlock s")
  case True
  then show ?thesis by (simp add: tryParseAnalystJson_def)
next
  case False
  note nostart = this
  show ?thesis
  proof (cases "inJsonBlock s")
    case False
    with nostart show ?thesis by (simp add: tryParseAnalystJson_def)
  next
    case True
    define s1 where "s1 = s\<lparr>jsonBuffer := jsonBuffer s @ 10 # l\<rparr>"
    show ?thesis
    proof (cases "count_list (jsonBuffer s1) 123 > 0 \<and>
                  count_list (jsonBuffer s1) 123 = count_list (jsonBuffer s1) 125")
      case False
      with nostart True show ?thesis
        by (auto simp: tryParseAnalystJson_def s1_def Let_def)
    next
      case bal: True
      show ?thesis
      proof (cases "try_block s1")
        case (Inl e)
        with nostart True bal show ?thesis
          by (auto simp: tryParseAnalystJson_def s1_def Let_def)
      next
        case (Inr r)
        obtain res s2 where r: "r = (res, s2)" by (cases r)
        have eq: "tryParseAnalystJson s l = Inr (res, s2)"
          using nostart True bal Inr r by (auto simp: tryParseAnalystJson_def s1_def Let_def)
        show ?thesis
        proof (cases res)
          case None
          with Inr r have "s2 = s1" by (auto dest: try_block_None)
          with eq None show ?thesis by (simp add: s1_def)
        next
          case (Some a)
          with Inr r have "s2 = s1\<lparr>inJsonBlock := False, jsonBuffer := []\<rparr>"
            "is_analyst a = Inr True" "JSON_parse (jsonBuffer s1) = Inr a"
            by (auto dest: try_block_Some)
          with eq Some True is_analyst_iteration[of a] show ?thesis by (simp add: s1_def)
        qed
      qed
    qed
  qed
qed

lemma in_set_dropWhile: "x \<in> set xs \<Longrightarrow> \<not> P x \<Longrightarrow> x \<in> set (dropWhile P xs)"
  by (induction xs) auto

lemma trim_nonempty: "x \<in> set xs \<Longrightarrow> \<not> is_space x \<Longrightarrow> trim xs \<noteq> []"
proof -
  assume a: "x \<in> set xs" "\<not> is_space x"
  then have "x \<in> set (dropWhile is_space xs)" by (rule in_set_dropWhile)
  then have "x \<in> set (rev (dropWhile is_space xs))" by simp
  then have "x \<in> set (dropWhile is_space (rev (dropWhile is_space xs)))"
    using a(2) by (rule in_set_dropWhile)
  then have "x \<in> set (trim xs)" by (simp add: trim_def)
  then show ?thesis by auto
qed

lemma marker_not_blank:
  "COUNTRY_PATTERN line = Some m \<Longrightarrow> trim line \<noteq> []"
proof -
  assume a: "COUNTRY_PATTERN line = Some m"
  obtain b n r where "m = (b, n, r)" by (cases m)
  with a COUNTRY_PATTERN_shape(1) have "91 \<in> set line" by fastforce
  moreover have "\<not> is_space 91" by (simp add: is_space_def)
  ultimately show ?thesis by (rule trim_nonempty)
qed

lemma tryParseCountryResponse_marker:
  "COUNTRY_PATTERN line = Some (before, name, rest) \<Longrightarrow>
   tryParseCountryResponse now s line =
     (currentResponse s,
      s\<lparr>currentResponse :=
           Some \<lparr>country = normalizeCountryName name,
                 message = (case SAID_PATTERN line of Some (b, n, said) \<Rightarrow> trim said
                            | None \<Rightarrow> trim (before @ rest)),
                 iteration = currentIteration s, timestamp = now\<rparr>\<rparr>)"
  by (simp add: tryParseCountryResponse_def Let_def)

lemma tryParseCountryResponse_no_marker:
  "COUNTRY_PATTERN line = None \<Longrightarrow>
   tryParseCountryResponse now s line =
     (None,
      case currentResponse s of
        Some r \<Rightarrow>
          if trim line \<noteq> [] \<and> \<not> inJsonBlock s \<and> \<not> isSystemMessage line
          then s\<lparr>currentResponse := Some (r\<lparr>message := message r @ 10 # trim line\<rparr>)\<rparr>
          else s
      | None \<Rightarrow> s)"
  by (simp add: tryParseCountryResponse_def split: option.splits)

text \<open>What one call of parseLine does to the pending utterance and to the iteration.\<close>

lemma parseLine_summary:
  "\<exists>out s'. parseLine now s line = Inr (out, s') \<and>
     ((\<exists>a v. out = Some (Analyst a) \<and> inJsonBlock s \<and> currentResponse s' = currentResponse s
          \<and> get_prop a (codes ''iteration'') = Inr (Some v) \<and> currentIteration s' = Some v)
    \<or> (\<exists>before name rest m. COUNTRY_PATTERN line = Some (before, name, rest)
          \<and> out = map_option Country (currentResponse s)
          \<and> currentResponse s' =
               Some \<lparr>country = normalizeCountryName name, message = m,
                     iteration = currentIteration s, timestamp = now\<rparr>
          \<and> (SAID_PATTERN line = None \<longrightarrow> m = trim (before @ rest))
          \<and> currentIteration s' = currentIteration s)
    \<or> (COUNTRY_PATTERN line = None \<and> out = None \<and> currentIteration s' = currentIteration s
          \<and> (currentResponse s' = currentResponse s
              \<or> (\<exists>u. currentResponse s = Some u
                    \<and> currentResponse s' = Some (u\<lparr>message := message u @ 10 # trim line\<rparr>)))))"
proof (cases "trim line = []")
  case True
  then have "COUNTRY_PATTERN line = None" using marker_not_blank by (cases "COUNTRY_PATTERN line") auto
  with True show ?thesis by (simp add: parseLine_def)
next
  case False
  from tryParseAnalystJson_cases[of s "trim line"] obtain r s1 where
    t: "tryParseAnalystJson s (trim line) = Inr (r, s1)"
       "currentResponse s1 = currentResponse s" "currentIteration s1 = currentIteration s"
       "\<forall>a. r = Some a \<longrightarrow> inJsonBlock s \<and> \<not> inJsonBlock s1 \<and> jsonBuffer s1 = []
            \<and> JSON_parse (jsonBuffer s @ 10 # trim line) = Inr a
            \<and> (\<exists>v. get_prop a (codes ''iteration'') = Inr (Some v))"
    by blast
  show ?thesis
  proof (cases r)
    case (Some a)
    with t(4) obtain v where v: "get_prop a (codes ''iteration'') = Inr (Some v)" "inJsonBlock s"
      by blast
    with False t Some show ?thesis by (simp add: parseLine_def Let_def)
  next
    case None
    show ?thesis
    proof (cases "COUNTRY_PATTERN line")
      case n: None
      have "parseLine now s line = Inr (None, snd (tryParseCountryResponse now s1 line))"
        using False t(1) None n by (simp add: parseLine_def Let_def tryParseCountryResponse_no_marker)
      with n t(2,3) show ?thesis
        by (auto simp: tryParseCountryResponse_no_marker split: option.splits)
    next
      case (Some m)
      obtain b n r' where m: "m = (b, n, r')" by (cases m)
      have "parseLine now s line =
              Inr (map_option Country (fst (tryParseCountryResponse now s1 line)),
                   snd (tryParseCountryResponse now s1 line))"
        using False t(1) None by (simp add: parseLine_def Let_def split: prod.splits option.splits)
      with Some m t(2,3) show ?thesis
        by (auto simp: tryParseCountryResponse_marker split: option.splits)
    qed
  qed
qed

lemma marker_name_canonical:
  "COUNTRY_PATTERN line = Some (before, name, rest) \<Longrightarrow> normalizeCountryName name \<in> canonical_names"
  using COUNTRY_PATTERN_shape(2)[of line before name rest]
  by (auto simp: canonical_names_def country_names_def)

lemma parseLine_pending_canonical:
  assumes "parseLine now s line = Inr (out, s')"
    and "\<And>u. currentResponse s = Some u \<Longrightarrow> country u \<in> canonical_names"
    and "currentResponse s' = Some u'"
  shows "country u' \<in> canonical_names"
  using parseLine_summary[of now s line] assms marker_name_canonical
  by (elim exE conjE disjE) auto

lemma reachable_pending_canonical:
  "reachable s \<Longrightarrow> currentResponse s = Some u \<Longrightarrow> country u \<in> canonical_names"
proof (induction arbitrary: u rule: reachable.induct)
  case reachable_new
  then show ?case by (simp add: new_OutputParser_def)
next
  case (reachable_parseLine s now line out s')
  then show ?case using parseLine_pending_canonical by blast
next
  case (reachable_finalize s r s')
  then show ?case by (auto simp: finalize_def split: option.splits)
next
  case (reachable_reset s)
  then show ?case by (simp add: reset_def)
qed

lemma tryParseCountryResponse_json_state:
  "tryParseCountryResponse now s line = (r, s') \<Longrightarrow>
     jsonBuffer s' = jsonBuffer s \<and> inJsonBlock s' = inJsonBlock s"
  by (auto simp: tryParseCountryResponse_def Let_def split: option.splits prod.splits if_splits)

lemma parseLine_blank: "trim line = [] \<Longrightarrow> parseLine now s line = Inr (None, s)"
  by (simp add: parseLine_def)

lemma parseLine_starts_block:
  assumes "\<not> inJsonBlock s" "take 1 (trim line) = [123]"
  shows "\<exists>s'. parseLine now s line =
            Inr (if COUNTRY_PATTERN line = None then None
                 else map_option Country (currentResponse s), s')
          \<and> inJsonBlock s' \<and> jsonBuffer s' = trim line
          \<and> currentIteration s' = currentIteration s
          \<and> (COUNTRY_PATTERN line = None \<longrightarrow> currentResponse s' = currentResponse s)"
proof -
  let ?s1 = "s\<lparr>inJsonBlock := True, jsonBuffer := trim line\<rparr>"
  from assms have ne: "trim line \<noteq> []" by auto
  from assms have t: "tryParseAnalystJson s (trim line) = Inr (None, ?s1)"
    by (simp add: tryParseAnalystJson_def)
  show ?thesis
  proof (cases "COUNTRY_PATTERN line")
    case None
    with ne t show ?thesis
      by (auto simp: parseLine_def Let_def tryParseCountryResponse_no_marker split: option.splits)
  next
    case (Some m)
    obtain b n r where "m = (b, n, r)" by (cases m)
    with Some ne t show ?thesis
      by (cases "currentResponse s")
         (auto simp: parseLine_def Let_def tryParseCountryResponse_marker)
  qed
qed

section \<open>The JSON automaton\<close>

lemma foldl_step_Bad: "foldl step (Bad, st) xs = (Bad, st)"
  by (induction xs) auto

lemma after_value_settled:
  "snd (after_value v st c) \<noteq> [] \<or> fst (after_value v st c) = Bad
     \<or> (\<exists>w. fst (after_value v st c) = After w)"
  by (cases "(v, st, c)" rule: after_value.cases) auto

lemma close_empty_settled:
  "snd (close_empty c st) \<noteq> [] \<or> fst (close_empty c st) = Bad
     \<or> (\<exists>w. fst (close_empty c st) = After w)"
  by (cases "(c, st)" rule: close_empty.cases) auto

lemma key_done_settled:
  "snd (key_done k st) \<noteq> [] \<or> fst (key_done k st) = Bad"
  by (cases "(k, st)" rule: key_done.cases) auto

lemma start_value_settled:
  "st \<noteq> [] \<Longrightarrow> snd (start_value st c) \<noteq> []"
  by (auto simp: start_value_def split: option.splits)

lemma step_settled:
  assumes "st \<noteq> [] \<or> m = Bad \<or> (\<exists>v. m = After v)"
  shows "snd (step (m, st) c) \<noteq> [] \<or> fst (step (m, st) c) = Bad
           \<or> (\<exists>w. fst (step (m, st) c) = After w)"
proof (cases m)
  case (After v)
  then show ?thesis using after_value_settled by simp
next
  case Bad
  then show ?thesis by simp
next
  case (Num ph a)
  with assms have "st \<noteq> []" by auto
  with Num show ?thesis using after_value_settled[of _ st c]
    by (auto split: option.splits)
next
  case Value
  with assms start_value_settled show ?thesis by auto
next
  case ArrFirst
  with assms start_value_settled close_empty_settled[of c st] show ?thesis by auto
next
  case ObjFirst
  with assms close_empty_settled[of c st] show ?thesis by auto
next
  case ObjKey
  with assms show ?thesis by auto
next
  case (Colon k)
  with assms key_done_settled[of k st] show ?thesis by auto
next
  case (Str b acc)
  with assms show ?thesis by auto
next
  case (Esc b acc)
  with assms show ?thesis by (auto split: option.splits)
next
  case (Uni b acc hs)
  with assms show ?thesis by (auto split: option.splits)
next
  case (Lit rest v)
  with assms show ?thesis by (auto split: list.splits)
qed

lemma foldl_step_settled:
  "snd p \<noteq> [] \<or> fst p = Bad \<or> (\<exists>v. fst p = After v) \<Longrightarrow>
   snd (foldl step p xs) \<noteq> [] \<or> fst (foldl step p xs) = Bad
     \<or> (\<exists>w. fst (foldl step p xs) = After w)"
proof (induction xs arbitrary: p)
  case Nil
  then show ?case by simp
next
  case (Cons x xs)
  obtain m st where p: "p = (m, st)" by (cases p)
  with Cons.prems step_settled[of st m x] Cons.IH[of "step p x"] show ?case by simp
qed

lemma finish_settled:
  "snd p \<noteq> [] \<or> fst p = Bad \<or> (\<exists>v. fst p = After v) \<Longrightarrow> finish p = Some j \<Longrightarrow> p = (After j, [])"
  by (cases p rule: finish.cases) auto

lemma object_text_run:
  assumes "JSON_parse (123 # t) = Inr j"
  shows "foldl step (Value, []) (123 # t) = (After j, [])"
proof -
  have first: "step (Value, []) 123 = (ObjFirst, [FObj []])"
    by (simp add: json_ws_def start_value_def)
  let ?p = "foldl step (ObjFirst, [FObj []]) t"
  have "snd ?p \<noteq> [] \<or> fst ?p = Bad \<or> (\<exists>v. fst ?p = After v)"
    by (rule foldl_step_settled) simp
  moreover from assms first have "finish ?p = Some j"
    by (auto simp: JSON_parse_def split: option.splits)
  ultimately have "?p = (After j, [])" by (rule finish_settled)
  with first show ?thesis by simp
qed

lemma json_ws_is_space: "json_ws c \<Longrightarrow> is_space c"
  by (auto simp: json_ws_def is_space_def)

lemma trailing_text_is_bad:
  assumes "foldl step (Value, []) t = (After j, [])" "\<not> is_space c"
  shows "fst (foldl step (Value, []) (t @ 10 # c # rest)) = Bad"
proof -
  have "step (After j, []) 10 = (After j, [])" by (simp add: json_ws_def)
  moreover have "step (After j, []) c = (Bad, [])"
    using assms(2) json_ws_is_space[of c] by auto
  ultimately show ?thesis using assms(1) by (simp add: foldl_step_Bad)
qed

lemma bad_stays_bad:
  "fst (foldl step (Value, []) t) = Bad \<Longrightarrow> fst (foldl step (Value, []) (t @ xs)) = Bad"
  by (cases "foldl step (Value, []) t") (simp add: foldl_step_Bad)

lemma bad_is_syntax_error:
  "fst (foldl step (Value, []) t) = Bad \<Longrightarrow> JSON_parse t = Inl SyntaxError"
  by (cases "foldl step (Value, []) t") (simp add: JSON_parse_def)

lemma last_dropWhile: "dropWhile P zs \<noteq> [] \<Longrightarrow> last (dropWhile P zs) = last zs"
  by (induction zs) (auto split: if_splits)

lemma trim_hd: "trim xs \<noteq> [] \<Longrightarrow> \<not> is_space (hd (trim xs))"
proof -
  assume a: "trim xs \<noteq> []"
  let ?ys = "dropWhile is_space xs"
  let ?zs = "dropWhile is_space (rev ?ys)"
  from a have z: "?zs \<noteq> []" by (simp add: trim_def)
  have y: "?ys \<noteq> []"
  proof
    assume "?ys = []"
    then have "?zs = []" by (simp only: rev.simps dropWhile.simps)
    with z show False by contradiction
  qed
  have "hd (trim xs) = last ?zs" using z by (simp add: trim_def hd_rev)
  also have "\<dots> = last (rev ?ys)" using z by (rule last_dropWhile)
  also have "\<dots> = hd ?ys" using y by (simp add: last_rev)
  finally show ?thesis using hd_dropWhile[OF y] by simp
qed

section \<open>Sequences of lines\<close>

lemma parseLine_total: "\<exists>out s'. parseLine now s line = Inr (out, s')"
  using parseLine_summary[of now s line] by blast

lemma feedLines_total: "\<exists>outs s'. feedLines s ls = Inr (outs, s')"
proof (induction ls arbitrary: s)
  case Nil
  then show ?case by simp
next
  case (Cons a ls)
  obtain now line where a: "a = (now, line)" by (cases a)
  from parseLine_total[of now s line] obtain out s1 where p: "parseLine now s line = Inr (out, s1)"
    by blast
  from Cons.IH[of s1] obtain outs s2 where "feedLines s1 ls = Inr (outs, s2)" by blast
  with a p show ?case by simp
qed

lemma feedLines_Cons:
  "feedLines s ((now, line) # ls) = Inr (outs, s') \<longleftrightarrow>
     (\<exists>out s1 outs'. parseLine now s line = Inr (out, s1) \<and> feedLines s1 ls = Inr (outs', s')
        \<and> outs = out # outs')"
  by (auto split: sum.splits prod.splits)

lemma feedLines_append:
  "feedLines s (pre @ post) = Inr (outs, s') \<longleftrightarrow>
     (\<exists>o1 s1 o2. feedLines s pre = Inr (o1, s1) \<and> feedLines s1 post = Inr (o2, s')
        \<and> outs = o1 @ o2)"
proof (induction pre arbitrary: s outs)
  case Nil
  then show ?case by simp
next
  case (Cons a pre)
  obtain now line where a: "a = (now, line)" by (cases a)
  show ?case
    unfolding a append_Cons feedLines_Cons Cons.IH
    by (auto simp: feedLines_Cons)
qed

lemma pending_origin:
  "feedLines s0 ls = Inr (outs, s) \<Longrightarrow> currentResponse s = Some u \<Longrightarrow>
     (\<exists>u0. currentResponse s0 = Some u0 \<and> iteration u = iteration u0
           \<and> timestamp u = timestamp u0 \<and> country u = country u0)
   \<or> (\<exists>pre now line post outs1 s1 before name rest.
          ls = pre @ (now, line) # post \<and> feedLines s0 pre = Inr (outs1, s1)
        \<and> COUNTRY_PATTERN line = Some (before, name, rest)
        \<and> country u = normalizeCountryName name \<and> timestamp u = now
        \<and> iteration u = currentIteration s1)"
proof (induction ls arbitrary: outs s u rule: rev_induct)
  case Nil
  then show ?case by simp
next
  case (snoc x ls)
  obtain now line where x: "x = (now, line)" by (cases x)
  from snoc.prems(1) obtain o1 sm out where
    mid: "feedLines s0 ls = Inr (o1, sm)" and p: "parseLine now sm line = Inr (out, s)"
    unfolding x feedLines_append feedLines_Cons by auto
  let ?O = "\<lambda>ls it ts c.
     (\<exists>u0. currentResponse s0 = Some u0 \<and> it = iteration u0 \<and> ts = timestamp u0
           \<and> c = country u0)
   \<or> (\<exists>pre now line post outs1 s1 before name rest.
          ls = pre @ (now, line) # post \<and> feedLines s0 pre = Inr (outs1, s1)
        \<and> COUNTRY_PATTERN line = Some (before, name, rest)
        \<and> c = normalizeCountryName name \<and> ts = now \<and> it = currentIteration s1)"
  have lift: "?O (ls @ [x]) it ts c" if "?O ls it ts c" for it ts c
    using that
  proof
    assume "\<exists>u0. currentResponse s0 = Some u0 \<and> it = iteration u0 \<and> ts = timestamp u0
              \<and> c = country u0"
    then show ?thesis by blast
  next
    assume "\<exists>pre now line post outs1 s1 before name rest.
          ls = pre @ (now, line) # post \<and> feedLines s0 pre = Inr (outs1, s1)
        \<and> COUNTRY_PATTERN line = Some (before, name, rest)
        \<and> c = normalizeCountryName name \<and> ts = now \<and> it = currentIteration s1"
    then obtain pre n l post outs1 s1 before name rest where
      "ls = pre @ (n, l) # post" "feedLines s0 pre = Inr (outs1, s1)"
      "COUNTRY_PATTERN l = Some (before, name, rest)" "c = normalizeCountryName name"
      "ts = n" "it = currentIteration s1" by blast
    then have "ls @ [x] = pre @ (n, l) # (post @ [x]) \<and> feedLines s0 pre = Inr (outs1, s1)
        \<and> COUNTRY_PATTERN l = Some (before, name, rest) \<and> c = normalizeCountryName name
        \<and> ts = n \<and> it = currentIteration s1" by simp
    then show ?thesis by blast
  qed
  have kept: "?O (ls @ [x]) (iteration u) (timestamp u) (country u)"
    if "currentResponse sm = Some um" "iteration u = iteration um" "timestamp u = timestamp um"
      "country u = country um"
    for um
    using snoc.IH[OF mid that(1)] lift[of "iteration um" "timestamp um" "country um"] that(2,3,4)
    by simp
  from parseLine_summary[of now sm line] p
  consider (analyst) "currentResponse s = currentResponse sm"
    | (opened) before name rest where "COUNTRY_PATTERN line = Some (before, name, rest)"
        "country u = normalizeCountryName name" "iteration u = currentIteration sm"
        "timestamp u = now"
    | (extended) um where "currentResponse sm = Some um"
        "currentResponse s = Some (um\<lparr>message := message um @ 10 # trim line\<rparr>)"
    using snoc.prems(2) by (elim exE conjE disjE) auto
  then show ?case
  proof cases
    case analyst
    with snoc.prems(2) kept[of u] show ?thesis by simp
  next
    case opened
    with mid x have "ls @ [x] = ls @ (now, line) # [] \<and> feedLines s0 ls = Inr (o1, sm)
        \<and> COUNTRY_PATTERN line = Some (before, name, rest)
        \<and> country u = normalizeCountryName name \<and> timestamp u = now
        \<and> iteration u = currentIteration sm"
      by simp
    then show ?thesis by blast
  next
    case extended
    with snoc.prems(2) have "iteration u = iteration um" "timestamp u = timestamp um"
      "country u = country um" by auto
    with kept[OF extended(1)] show ?thesis by simp
  qed
qed

lemma emitted_origin:
  "feedLines s0 ls = Inr (outs, s) \<Longrightarrow> Some (Country u) \<in> set outs \<Longrightarrow>
     (\<exists>u0. currentResponse s0 = Some u0 \<and> iteration u = iteration u0
           \<and> timestamp u = timestamp u0 \<and> country u = country u0)
   \<or> (\<exists>pre now line post outs1 s1 before name rest.
          ls = pre @ (now, line) # post \<and> feedLines s0 pre = Inr (outs1, s1)
        \<and> COUNTRY_PATTERN line = Some (before, name, rest)
        \<and> country u = normalizeCountryName name \<and> timestamp u = now
        \<and> iteration u = currentIteration s1)"
proof (induction ls arbitrary: outs s rule: rev_induct)
  case Nil
  then show ?case by simp
next
  case (snoc x ls)
  obtain now line where x: "x = (now, line)" by (cases x)
  from snoc.prems(1) obtain o1 sm out where
    mid: "feedLines s0 ls = Inr (o1, sm)" and p: "parseLine now sm line = Inr (out, s)"
    and outs: "outs = o1 @ [out]"
    unfolding x feedLines_append feedLines_Cons by auto
  have before_x: "(\<exists>u0. currentResponse s0 = Some u0 \<and> iteration u = iteration u0
           \<and> timestamp u = timestamp u0 \<and> country u = country u0)
   \<or> (\<exists>pre now line post outs1 s1 before name rest.
          ls = pre @ (now, line) # post \<and> feedLines s0 pre = Inr (outs1, s1)
        \<and> COUNTRY_PATTERN line = Some (before, name, rest)
        \<and> country u = normalizeCountryName name \<and> timestamp u = now
        \<and> iteration u = currentIteration s1)"
  proof (cases "Some (Country u) \<in> set o1")
    case True
    with snoc.IH[OF mid] show ?thesis by simp
  next
    case False
    with snoc.prems(2) outs have "out = Some (Country u)" by simp
    with parseLine_summary[of now sm line] p have "currentResponse sm = Some u"
      by (cases "currentResponse sm") auto
    from pending_origin[OF mid this] show ?thesis .
  qed
  then show ?case
  proof
    assume "\<exists>u0. currentResponse s0 = Some u0 \<and> iteration u = iteration u0
           \<and> timestamp u = timestamp u0 \<and> country u = country u0"
    then show ?thesis by blast
  next
    assume "\<exists>pre now line post outs1 s1 before name rest.
          ls = pre @ (now, line) # post \<and> feedLines s0 pre = Inr (outs1, s1)
        \<and> COUNTRY_PATTERN line = Some (before, name, rest)
        \<and> country u = normalizeCountryName name \<and> timestamp u = now
        \<and> iteration u = currentIteration s1"
    then obtain pre n l post outs1 s1 before name rest where
      "ls = pre @ (n, l) # post" "feedLines s0 pre = Inr (outs1, s1)"
      "COUNTRY_PATTERN l = Some (before, name, rest)" "country u = normalizeCountryName name"
      "timestamp u = n" "iteration u = currentIteration s1" by blast
    then have "ls @ [x] = pre @ (n, l) # (post @ [x]) \<and> feedLines s0 pre = Inr (outs1, s1)
        \<and> COUNTRY_PATTERN l = Some (before, name, rest)
        \<and> country u = normalizeCountryName name \<and> timestamp u = n
        \<and> iteration u = currentIteration s1"
      by simp
    then show ?thesis by blast
  qed
qed

lemma iteration_unchanged:
  "feedLines s0 ls = Inr (outs, s) \<Longrightarrow> (\<forall>a. Some (Analyst a) \<notin> set outs) \<Longrightarrow>
   currentIteration s = currentIteration s0"
proof (induction ls arbitrary: s0 outs)
  case Nil
  then show ?case by simp
next
  case (Cons x ls)
  obtain now line where x: "x = (now, line)" by (cases x)
  from Cons.prems(1) obtain out s1 outs' where
    p: "parseLine now s0 line = Inr (out, s1)" and r: "feedLines s1 ls = Inr (outs', s)"
    and outs: "outs = out # outs'"
    unfolding x feedLines_Cons by auto
  from Cons.prems(2) outs have na: "\<forall>a. out \<noteq> Some (Analyst a)" "\<forall>a. Some (Analyst a) \<notin> set outs'"
    by auto
  from parseLine_summary[of now s0 line] p na(1) have "currentIteration s1 = currentIteration s0"
    by (elim exE conjE disjE) auto
  with Cons.IH[OF r na(2)] show ?case by simp
qed

lemma parseLine_dead_block:
  assumes "inJsonBlock s"
    and "foldl step (Value, []) (jsonBuffer s) = (After j, [])
         \<or> fst (foldl step (Value, []) (jsonBuffer s)) = Bad"
    and "parseLine now s line = Inr (out, s')"
  shows "(\<forall>a. out \<noteq> Some (Analyst a))
       \<and> (\<not> inJsonBlock s'
          \<or> inJsonBlock s'
            \<and> (foldl step (Value, []) (jsonBuffer s') = (After j, [])
               \<or> fst (foldl step (Value, []) (jsonBuffer s')) = Bad))"
proof (cases "trim line = []")
  case True
  with assms show ?thesis by (simp add: parseLine_blank)
next
  case False
  then obtain c rest where l: "trim line = c # rest" by (cases "trim line") auto
  from trim_hd[OF False] l have c: "\<not> is_space c" by simp
  let ?buf = "jsonBuffer s @ 10 # trim line"
  have bad: "fst (foldl step (Value, []) ?buf) = Bad"
    using assms(2)
  proof
    assume "foldl step (Value, []) (jsonBuffer s) = (After j, [])"
    from trailing_text_is_bad[OF this c] l show ?thesis by simp
  next
    assume "fst (foldl step (Value, []) (jsonBuffer s)) = Bad"
    then show ?thesis by (rule bad_stays_bad)
  qed
  then have err: "JSON_parse ?buf = Inl SyntaxError" by (rule bad_is_syntax_error)
  let ?s1 = "s\<lparr>jsonBuffer := ?buf\<rparr>"
  let ?s2 = "if count_list ?buf 123 > 0 \<and> count_list ?buf 123 = count_list ?buf 125
             then ?s1\<lparr>inJsonBlock := False, jsonBuffer := []\<rparr> else ?s1"
  have t: "tryParseAnalystJson s (trim line) = Inr (None, ?s2)"
    using assms(1) err by (simp add: tryParseAnalystJson_def try_block_def Let_def)
  obtain r s3 where cr: "tryParseCountryResponse now ?s2 line = (r, s3)"
    by (cases "tryParseCountryResponse now ?s2 line")
  from assms(3) False t cr have out: "out = map_option Country r" and s': "s' = s3"
    by (auto simp: parseLine_def Let_def split: option.splits)
  from tryParseCountryResponse_json_state[OF cr] s'
  have js: "jsonBuffer s' = jsonBuffer ?s2" "inJsonBlock s' = inJsonBlock ?s2" by simp_all
  show ?thesis
  proof (cases "count_list ?buf 123 > 0 \<and> count_list ?buf 123 = count_list ?buf 125")
    case True
    with js out show ?thesis by (cases r) auto
  next
    case False
    with js assms(1) bad out show ?thesis by (cases r) auto
  qed
qed

lemma dead_block_emits_nothing:
  assumes "inJsonBlock s"
    and "foldl step (Value, []) (jsonBuffer s) = (After j, [])
         \<or> fst (foldl step (Value, []) (jsonBuffer s)) = Bad"
    and "feedLines s ls = Inr (outs, s2)" and "i < length outs" and "outs ! i = Some (Analyst a)"
  shows "\<exists>k outs' s'. k \<le> i \<and> feedLines s (take k ls) = Inr (outs', s') \<and> \<not> inJsonBlock s'"
  using assms
proof (induction ls arbitrary: s outs i)
  case Nil
  then show ?case by simp
next
  case (Cons x ls)
  obtain now line where x: "x = (now, line)" by (cases x)
  from Cons.prems(3) obtain out s1 outs1 where
    p: "parseLine now s line = Inr (out, s1)" and r: "feedLines s1 ls = Inr (outs1, s2)"
    and outs: "outs = out # outs1"
    unfolding x feedLines_Cons by auto
  from parseLine_dead_block[OF Cons.prems(1,2) p]
  have na: "\<forall>a. out \<noteq> Some (Analyst a)"
    and nxt: "\<not> inJsonBlock s1 \<or> inJsonBlock s1
            \<and> (foldl step (Value, []) (jsonBuffer s1) = (After j, [])
               \<or> fst (foldl step (Value, []) (jsonBuffer s1)) = Bad)"
    by blast+
  from na Cons.prems(4,5) outs obtain i' where i: "i = Suc i'" "i' < length outs1"
    "outs1 ! i' = Some (Analyst a)"
    by (cases i) auto
  show ?case
  proof (cases "inJsonBlock s1")
    case False
    have "feedLines s (take 1 (x # ls)) = Inr ([out], s1)" using p x by simp
    with False i(1) show ?thesis by (intro exI[of _ 1]) auto
  next
    case True
    with nxt have "foldl step (Value, []) (jsonBuffer s1) = (After j, [])
               \<or> fst (foldl step (Value, []) (jsonBuffer s1)) = Bad" by blast
    from Cons.IH[OF True this r i(2,3)] obtain k outs' s' where
      k: "k \<le> i'" "feedLines s1 (take k ls) = Inr (outs', s')" "\<not> inJsonBlock s'" by blast
    have "feedLines s (take (Suc k) (x # ls)) = Inr (out # outs', s')"
      using p k(2) x by simp
    with k(1,3) i(1) show ?thesis by (intro exI[of _ "Suc k"]) auto
  qed
qed

lemma malformed_block_run:
  assumes "\<not> inJsonBlock s"
  shows "feedLines s (zip [t1, t2, t3] malformed_block) =
           Inr ([None, None, None],
                s\<lparr>jsonBuffer := [], inJsonBlock := False,
                  currentResponse :=
                    map_option (\<lambda>r. r\<lparr>message := message r @ 10 # codes ''}''\<rparr>)
                      (currentResponse s)\<rparr>)"
  using assms by (cases "currentResponse s") (simp_all add: malformed_block_def eval_defs)

lemma scenario_A_run:
  \<open>feedLines new_OutputParser (zip [t0, t1, t2, t3, t4, t5, t6, t7] scenario_A) =
     Inr ([None,
           Some (Country \<lparr>country = codes ''USA'', message = codes ''We condemn this.'',
                           iteration = Some (JNumber 1), timestamp = t0\<rparr>),
           None, None, None, None, None, Some (Analyst update_A)],
          new_OutputParser\<lparr>currentResponse :=
            Some \<lparr>country = codes ''China'', message = codes ''We reject this.'',
                  iteration = Some (JNumber 1), timestamp = t1\<rparr>\<rparr>)\<close>
  by (simp add: scenario_A_def update_A_def eval_defs)

lemma later_lines_run:
  \<open>feedLines (new_OutputParser\<lparr>inJsonBlock := True, jsonBuffer := single_line_update\<rparr>)
     later_lines =
   Inr ([None, None, None, None, None, None,
         Some (Analyst (JObject [(codes ''iteration'', JNumber 3),
                 (codes ''analysis'', JString (codes ''t'')),
                 (codes ''norm_updates'', JObject []), (codes ''reasoning'', JObject [])]))],
        new_OutputParser\<lparr>currentIteration := Some (JNumber 3)\<rparr>)\<close>
  by (simp add: single_line_update_def later_lines_def eval_defs)

section \<open>Country markers inside a JSON block\<close>

text \<open>
  C1. Specification: while \<open>inJsonBlock\<close> is true, a line that contains a country marker is
  only a continuation of the JSON block; it opens no turn, emits no pending utterance and
  leaves the pending utterance alone.

  The program does otherwise. \<open>tryParseCountryResponse\<close> guards its continuation branch with
  \<open>\<not> inJsonBlock\<close>, but its marker branch has no such guard. With the USA utterance open and a
  JSON block started by \<open>{\<close>, the JSON line \<open>"analysis": "[China] said: no",\<close> makes
  \<open>parseLine\<close> return the USA utterance and open a China turn whose message is the JSON
  fragment \<open>no",\<close>.
\<close>

theorem marker_inside_json_block_opens_turn:
  \<open>feedLines new_OutputParser
     [(0, codes ''[USA] said: hi''), (1, codes ''{''),
      (2, codes ''"analysis": "[China] said: no",'')] =
   Inr ([None, None,
         Some (Country \<lparr>country = codes ''USA'', message = codes ''hi'',
                         iteration = Some (JNumber 1), timestamp = 0\<rparr>)],
        \<lparr>jsonBuffer = codes ''{'' @ 10 # codes ''"analysis": "[China] said: no",'',
         inJsonBlock = True,
         currentResponse =
           Some \<lparr>country = codes ''China'', message = codes ''no",'',
                 iteration = Some (JNumber 1), timestamp = 2\<rparr>,
         currentIteration = Some (JNumber 1)\<rparr>)\<close>
  by (simp add: eval_defs)

section \<open>A line that starts a JSON block\<close>

text \<open>
  C2. Specification: a line that starts a JSON block closes and emits the open utterance, so
  that scenario A yields the USA utterance, the China utterance and then the update.

  The program has no such step: a line that starts a block (and holds no country marker)
  returns nothing and only sets \<open>inJsonBlock\<close> and \<open>jsonBuffer\<close>; the open utterance stays
  open and unchanged. In scenario A, for any clock readings, \<open>parseLine\<close> returns the USA
  utterance on the second line and the update on the last line, and the China utterance is
  still open afterwards: \<open>finalize\<close> returns it.
\<close>

theorem json_start_keeps_utterance_open:
  \<open>(\<not> inJsonBlock s \<longrightarrow> take 1 (trim line) = [123] \<longrightarrow> COUNTRY_PATTERN line = None \<longrightarrow>
      parseLine now s line = Inr (None, s\<lparr>inJsonBlock := True, jsonBuffer := trim line\<rparr>))
   \<and> (\<exists>s'. feedLines new_OutputParser (zip [t0, t1, t2, t3, t4, t5, t6, t7] scenario_A) =
          Inr ([None,
                Some (Country \<lparr>country = codes ''USA'', message = codes ''We condemn this.'',
                                iteration = Some (JNumber 1), timestamp = t0\<rparr>),
                None, None, None, None, None, Some (Analyst update_A)], s')
        \<and> finalize s' =
            (Some \<lparr>country = codes ''China'', message = codes ''We reject this.'',
                   iteration = Some (JNumber 1), timestamp = t1\<rparr>,
             s'\<lparr>currentResponse := None\<rparr>))\<close>
proof -
  have a: "parseLine now s line = Inr (None, s\<lparr>inJsonBlock := True, jsonBuffer := trim line\<rparr>)"
    if "\<not> inJsonBlock s" "take 1 (trim line) = [123]" "COUNTRY_PATTERN line = None"
  proof -
    from that(2) have ne: "trim line \<noteq> []" by auto
    from that(1,2) have "tryParseAnalystJson s (trim line) =
        Inr (None, s\<lparr>inJsonBlock := True, jsonBuffer := trim line\<rparr>)"
      by (simp add: tryParseAnalystJson_def)
    with ne that(3) show ?thesis
      by (auto simp: parseLine_def Let_def tryParseCountryResponse_no_marker split: option.splits)
  qed
  have b: \<open>finalize (new_OutputParser\<lparr>currentResponse :=
            Some \<lparr>country = codes ''China'', message = codes ''We reject this.'',
                  iteration = Some (JNumber 1), timestamp = t1\<rparr>\<rparr>) =
       (Some \<lparr>country = codes ''China'', message = codes ''We reject this.'',
                   iteration = Some (JNumber 1), timestamp = t1\<rparr>,
        new_OutputParser\<lparr>currentResponse :=
            Some \<lparr>country = codes ''China'', message = codes ''We reject this.'',
                  iteration = Some (JNumber 1), timestamp = t1\<rparr>\<rparr>\<lparr>currentResponse := None\<rparr>)\<close>
    by (simp add: finalize_def)
  from a scenario_A_run[of t0 t1 t2 t3 t4 t5 t6 t7] b show ?thesis by blast
qed

text \<open>The first part at the third line of scenario A, the China utterance being open.\<close>

theorem json_start_keeps_utterance_open_witness:
  \<open>\<not> inJsonBlock (new_OutputParser\<lparr>currentResponse :=
            Some \<lparr>country = codes ''China'', message = codes ''We reject this.'',
                  iteration = Some (JNumber 1), timestamp = 1\<rparr>\<rparr>)
   \<and> take 1 (trim (codes ''{'')) = [123] \<and> COUNTRY_PATTERN (codes ''{'') = None
   \<and> parseLine 2 (new_OutputParser\<lparr>currentResponse :=
            Some \<lparr>country = codes ''China'', message = codes ''We reject this.'',
                  iteration = Some (JNumber 1), timestamp = 1\<rparr>\<rparr>) (codes ''{'') =
       Inr (None, new_OutputParser\<lparr>currentResponse :=
            Some \<lparr>country = codes ''China'', message = codes ''We reject this.'',
                  iteration = Some (JNumber 1), timestamp = 1\<rparr>,
            inJsonBlock := True, jsonBuffer := [123]\<rparr>)\<close>
proof -
  let ?s = \<open>new_OutputParser\<lparr>currentResponse :=
            Some \<lparr>country = codes ''China'', message = codes ''We reject this.'',
                  iteration = Some (JNumber 1), timestamp = 1\<rparr>\<rparr>\<close>
  have h1: "\<not> inJsonBlock ?s" by (simp add: new_OutputParser_def)
  have h2: \<open>take 1 (trim (codes ''{'')) = [123]\<close> by (simp add: eval_defs)
  have h3: \<open>COUNTRY_PATTERN (codes ''{'') = None\<close> by (simp add: eval_defs)
  have t: \<open>trim (codes ''{'') = [123]\<close> by (simp add: eval_defs)
  from json_start_keeps_utterance_open[of ?s "codes ''{''" 2] h1 h2 h3
  have \<open>parseLine 2 ?s (codes ''{'') =
          Inr (None, ?s\<lparr>inJsonBlock := True, jsonBuffer := trim (codes ''{'')\<rparr>)\<close>
    by blast
  with h1 h2 h3 t show ?thesis by simp
qed

text \<open>
  C2, as stated, fails on scenario A: the eight calls return the USA utterance and the
  update only, and the China utterance comes out of \<open>finalize\<close>, after the update.
\<close>

theorem china_emitted_after_update:
  \<open>feedLines new_OutputParser (zip [0, 1, 2, 3, 4, 5, 6, 7] scenario_A) =
     Inr ([None,
           Some (Country \<lparr>country = codes ''USA'', message = codes ''We condemn this.'',
                           iteration = Some (JNumber 1), timestamp = 0\<rparr>),
           None, None, None, None, None, Some (Analyst update_A)],
          new_OutputParser\<lparr>currentResponse :=
            Some \<lparr>country = codes ''China'', message = codes ''We reject this.'',
                  iteration = Some (JNumber 1), timestamp = 1\<rparr>\<rparr>)
   \<and> finalize (new_OutputParser\<lparr>currentResponse :=
            Some \<lparr>country = codes ''China'', message = codes ''We reject this.'',
                  iteration = Some (JNumber 1), timestamp = 1\<rparr>\<rparr>) =
       (Some \<lparr>country = codes ''China'', message = codes ''We reject this.'',
              iteration = Some (JNumber 1), timestamp = 1\<rparr>, new_OutputParser)\<close>
  using scenario_A_run[of 0 1 2 3 4 5 6 7] by (simp add: finalize_def new_OutputParser_def)

section \<open>A balanced block that is valid JSON but no analyst response\<close>

text \<open>
  C3. Specification: a buffered block that reaches brace balance and parses, but lacks a
  required field, clears \<open>jsonBuffer\<close> and sets \<open>inJsonBlock\<close> to false, as a parse failure
  does.

  The program resets only in its \<open>catch\<close> branch. After the lines \<open>{\<close>, \<open>"iteration": 1\<close>,
  \<open>}\<close> the buffer parses to an object without \<open>analysis\<close>, \<open>norm_updates\<close> and
  \<open>reasoning\<close>; nothing is returned, and the parser is still inside the block with the whole
  text buffered.
\<close>

theorem incomplete_analyst_object_not_reset:
  \<open>feedLines new_OutputParser
     [(0, codes ''{''), (1, codes ''"iteration": 1''), (2, codes ''}'')] =
     Inr ([None, None, None],
          new_OutputParser\<lparr>inJsonBlock := True,
            jsonBuffer := codes ''{'' @ 10 # codes ''"iteration": 1'' @ 10 # codes ''}''\<rparr>)
   \<and> JSON_parse (codes ''{'' @ 10 # codes ''"iteration": 1'' @ 10 # codes ''}'') =
       Inr (JObject [(codes ''iteration'', JNumber 1)])\<close>
  by (simp add: eval_defs)

text \<open>
  The same for every such block: when the buffer balances and parses and the value is no
  analyst response, \<open>tryParseAnalystJson\<close> only appends the line.
\<close>

lemma incomplete_object_keeps_block:
  assumes "inJsonBlock s"
    and "0 < count_list (jsonBuffer s @ 10 # l) 123"
    and "count_list (jsonBuffer s @ 10 # l) 123 = count_list (jsonBuffer s @ 10 # l) 125"
    and "JSON_parse (jsonBuffer s @ 10 # l) = Inr parsed" and "is_analyst parsed = Inr False"
  shows "tryParseAnalystJson s l = Inr (None, s\<lparr>jsonBuffer := jsonBuffer s @ 10 # l\<rparr>)"
  using assms by (simp add: tryParseAnalystJson_def try_block_def Let_def)

text \<open>
  A consequence: the analyst block of scenario A, arriving next, is appended to the stale
  buffer, the whole fails to parse when the braces balance again, and the update is lost.
\<close>

lemma stale_block_swallows_next_update:
  \<open>feedLines
     (new_OutputParser\<lparr>inJsonBlock := True,
        jsonBuffer := codes ''{'' @ 10 # codes ''"iteration": 1'' @ 10 # codes ''}''\<rparr>)
     [(3, codes ''{''), (4, codes ''"iteration": 1,''), (5, codes ''"analysis": "test",''),
      (6, codes ''"norm_updates": {},''), (7, codes ''"reasoning": {}''), (8, codes ''}'')] =
   Inr ([None, None, None, None, None, None], new_OutputParser)\<close>
  by (simp add: eval_defs)

section \<open>No exception reaches the caller\<close>

text \<open>
  C4. \<open>parseLine\<close> and \<open>finalize\<close> are total: whatever the state and the line, the call
  returns and no exception propagates (the \<open>SyntaxError\<close> of \<open>JSON.parse\<close> and a \<open>TypeError\<close>
  of a property read are caught inside \<open>tryParseAnalystJson\<close>); so does any sequence of
  calls. Feeding \<open>{\<close>, \<open>not valid json\<close>, \<open>}\<close> to a parser that is not inside a block
  returns nothing three times and leaves \<open>jsonBuffer\<close> empty and \<open>inJsonBlock\<close> false, so that
  every later line is processed as by a parser whose JSON state was reset; a fresh parser is
  back in its initial state.
\<close>

theorem parser_never_throws:
  "(\<exists>out s'. parseLine now s line = Inr (out, s'))
   \<and> (\<exists>r s'. finalize s = (r, s'))
   \<and> (\<exists>outs s'. feedLines s ls = Inr (outs, s'))
   \<and> (\<not> inJsonBlock s \<longrightarrow>
        (\<exists>s'. feedLines s (zip [t1, t2, t3] malformed_block) = Inr ([None, None, None], s')
            \<and> jsonBuffer s' = [] \<and> \<not> inJsonBlock s'
            \<and> currentIteration s' = currentIteration s
            \<and> (\<forall>more. feedLines s' more =
                        feedLines (s'\<lparr>jsonBuffer := [], inJsonBlock := False\<rparr>) more)))
   \<and> feedLines new_OutputParser (zip [t1, t2, t3] malformed_block) =
       Inr ([None, None, None], new_OutputParser)"
proof -
  have a: "\<exists>out s'. parseLine now s line = Inr (out, s')" by (rule parseLine_total)
  have b: "\<exists>r s'. finalize s = (r, s')" by (cases "finalize s") simp
  have c: "\<exists>outs s'. feedLines s ls = Inr (outs, s')" by (rule feedLines_total)
  have d: "\<exists>s'. feedLines s (zip [t1, t2, t3] malformed_block) = Inr ([None, None, None], s')
            \<and> jsonBuffer s' = [] \<and> \<not> inJsonBlock s'
            \<and> currentIteration s' = currentIteration s
            \<and> (\<forall>more. feedLines s' more =
                        feedLines (s'\<lparr>jsonBuffer := [], inJsonBlock := False\<rparr>) more)"
    if "\<not> inJsonBlock s"
  proof -
    let ?s' = "s\<lparr>jsonBuffer := [], inJsonBlock := False,
                  currentResponse :=
                    map_option (\<lambda>r. r\<lparr>message := message r @ 10 # codes ''}''\<rparr>)
                      (currentResponse s)\<rparr>"
    have "?s'\<lparr>jsonBuffer := [], inJsonBlock := False\<rparr> = ?s'" by (cases s) simp
    then have "\<forall>more. feedLines ?s' more =
                 feedLines (?s'\<lparr>jsonBuffer := [], inJsonBlock := False\<rparr>) more"
      by (simp only:) simp
    with malformed_block_run[OF that, of t1 t2 t3] show ?thesis
      by (intro exI[of _ ?s']) simp
  qed
  have e: "feedLines new_OutputParser (zip [t1, t2, t3] malformed_block) =
       Inr ([None, None, None], new_OutputParser)"
    using malformed_block_run[of new_OutputParser t1 t2 t3] by (simp add: new_OutputParser_def)
  from a b c d e show ?thesis by blast
qed

text \<open>
  An instance: a call whose \<open>JSON.parse\<close> throws returns all the same, and the malformed
  block on a fresh parser.
\<close>

theorem parser_never_throws_witness:
  \<open>(\<exists>out s'. parseLine 7 (new_OutputParser\<lparr>inJsonBlock := True, jsonBuffer := codes ''{"a": nul''\<rparr>)
                 (codes ''l}'') = Inr (out, s'))
   \<and> \<not> inJsonBlock new_OutputParser
   \<and> (\<exists>s'. feedLines new_OutputParser (zip [0, 1, 2] malformed_block) =
              Inr ([None, None, None], s')
          \<and> jsonBuffer s' = [] \<and> \<not> inJsonBlock s')
   \<and> JSON_parse (codes ''{'' @ 10 # codes ''not valid json'' @ 10 # codes ''}'') = Inl SyntaxError\<close>
proof -
  have h: "\<not> inJsonBlock new_OutputParser" by (simp add: new_OutputParser_def)
  have j: \<open>JSON_parse (codes ''{'' @ 10 # codes ''not valid json'' @ 10 # codes ''}'') =
            Inl SyntaxError\<close>
    by (simp add: eval_defs)
  from parser_never_throws[of 7
        \<open>new_OutputParser\<lparr>inJsonBlock := True, jsonBuffer := codes ''{"a": nul''\<rparr>\<close>
        \<open>codes ''l}''\<close> \<open>[]\<close> 0 1 2]
  have \<open>\<exists>out s'. parseLine 7 (new_OutputParser\<lparr>inJsonBlock := True, jsonBuffer := codes ''{"a": nul''\<rparr>)
                 (codes ''l}'') = Inr (out, s')\<close>
    by blast
  moreover from parser_never_throws[of 0 new_OutputParser "[]" "[]" 0 1 2] h
  have \<open>\<exists>s'. feedLines new_OutputParser (zip [0, 1, 2] malformed_block) =
              Inr ([None, None, None], s')
          \<and> jsonBuffer s' = [] \<and> \<not> inJsonBlock s'\<close>
    by blast
  ultimately show ?thesis using h j by blast
qed

section \<open>Aliases at the line interface\<close>

text \<open>
  C5. Specification: each of \<open>[usa] said: X\<close>, \<open>[USA] X\<close> and \<open>[US] said: X\<close> is recognised
  as a country marker and yields an utterance of USA with message \<open>X\<close>.

  \<open>normalizeCountryName\<close> knows the alias \<open>US\<close>, but \<open>COUNTRY_PATTERN\<close> admits only the four
  names \<open>USA\<close>, \<open>China\<close>, \<open>Russia\<close>, \<open>EU\<close>, so the alias never reaches the normaliser: the
  line \<open>[US] said: X\<close> is no marker, and a fresh parser drops it.
\<close>

theorem us_alias_is_no_marker:
  \<open>COUNTRY_PATTERN (codes ''[US] said: X'') = None
   \<and> parseLine 0 new_OutputParser (codes ''[US] said: X'') = Inr (None, new_OutputParser)
   \<and> normalizeCountryName (codes ''US'') = codes ''USA''\<close>
  by (simp add: eval_defs)

text \<open>The other two lines of the specification's example are markers of USA.\<close>

lemma usa_markers_recognised:
  \<open>parseLine 0 new_OutputParser (codes ''[usa] said: X'') =
     Inr (None, new_OutputParser\<lparr>currentResponse :=
            Some \<lparr>country = codes ''USA'', message = codes ''X'', iteration = Some (JNumber 1),
                  timestamp = 0\<rparr>\<rparr>)
   \<and> parseLine 0 new_OutputParser (codes ''[USA] X'') =
     Inr (None, new_OutputParser\<lparr>currentResponse :=
            Some \<lparr>country = codes ''USA'', message = codes ''X'', iteration = Some (JNumber 1),
                  timestamp = 0\<rparr>\<rparr>)\<close>
  by (simp add: eval_defs)

section \<open>The open utterance is never dropped\<close>

text \<open>
  C6. At most one utterance is open at any instant: the parser holds it in the one field
  \<open>currentResponse\<close>. When a call of \<open>parseLine\<close> finds an utterance \<open>u\<close> open, then either
  the line has a country marker and the call returns no analyst update, and then the call
  returns \<open>u\<close> itself and a new utterance is open, opened in this call; or \<open>u\<close> is not
  returned and is still the open utterance, with at most its message extended.
\<close>

theorem open_utterance_never_dropped:
  assumes "parseLine now s line = Inr (out, s')" and "currentResponse s = Some u"
  shows "if COUNTRY_PATTERN line \<noteq> None \<and> (\<forall>a. out \<noteq> Some (Analyst a))
         then out = Some (Country u)
              \<and> (\<exists>c m. currentResponse s' =
                     Some \<lparr>country = c, message = m, iteration = currentIteration s,
                           timestamp = now\<rparr>)
         else out \<noteq> Some (Country u) \<and> (\<exists>m. currentResponse s' = Some (u\<lparr>message := m\<rparr>))"
proof -
  have keep: "\<exists>m. Some u = Some (u\<lparr>message := m\<rparr>)"
    by (rule exI[of _ "message u"]) simp
  from parseLine_summary[of now s line] assms keep show ?thesis
    by (elim exE conjE disjE) auto
qed

text \<open>Scenario B of the specification, at its third line.\<close>

theorem open_utterance_never_dropped_witness:
  \<open>parseLine 1 (new_OutputParser\<lparr>currentResponse :=
       Some \<lparr>country = codes ''EU'', message = codes ''Line one.'', iteration = Some (JNumber 1),
             timestamp = 0\<rparr>\<rparr>) (codes ''[USA] said: Reply.'') =
     Inr (Some (Country \<lparr>country = codes ''EU'', message = codes ''Line one.'',
                          iteration = Some (JNumber 1), timestamp = 0\<rparr>),
          new_OutputParser\<lparr>currentResponse :=
            Some \<lparr>country = codes ''USA'', message = codes ''Reply.'', iteration = Some (JNumber 1),
                  timestamp = 1\<rparr>\<rparr>)
   \<and> COUNTRY_PATTERN (codes ''[USA] said: Reply.'') \<noteq> None
   \<and> (\<exists>c m. currentResponse (new_OutputParser\<lparr>currentResponse :=
            Some \<lparr>country = codes ''USA'', message = codes ''Reply.'', iteration = Some (JNumber 1),
                  timestamp = 1\<rparr>\<rparr>) =
         Some \<lparr>country = c, message = m, iteration = currentIteration new_OutputParser,
               timestamp = 1\<rparr>)\<close>
proof -
  let ?u = \<open>\<lparr>country = codes ''EU'', message = codes ''Line one.'', iteration = Some (JNumber 1),
             timestamp = 0::nat\<rparr>\<close>
  let ?s = \<open>new_OutputParser\<lparr>currentResponse := Some ?u\<rparr>\<close>
  let ?s' = \<open>new_OutputParser\<lparr>currentResponse :=
            Some \<lparr>country = codes ''USA'', message = codes ''Reply.'', iteration = Some (JNumber 1),
                  timestamp = 1\<rparr>\<rparr>\<close>
  have a: \<open>parseLine 1 ?s (codes ''[USA] said: Reply.'') = Inr (Some (Country ?u), ?s')\<close>
    by (simp add: eval_defs)
  have b: "currentResponse ?s = Some ?u" by simp
  have c: \<open>COUNTRY_PATTERN (codes ''[USA] said: Reply.'') \<noteq> None\<close>
    by (simp add: eval_defs)
  from open_utterance_never_dropped[OF a b] a c show ?thesis
    by (simp add: new_OutputParser_def)
qed

section \<open>The iteration of an utterance\<close>

text \<open>
  C7. Every utterance that is emitted, by a \<open>parseLine\<close> call of a run or by \<open>finalize\<close>
  after it, carries the iteration that was current when it was opened: either it was open
  before the run and has the iteration (and the country and the time stamp) it had then, or
  a line of the run with a country marker opened it (it has the country of that marker and
  the clock reading of that call), and its iteration is \<open>currentIteration\<close> of the state
  that line was fed to, whatever lines and analyst updates came later. On a fresh parser, as
  long as no call has returned an analyst update, that iteration is 1.
\<close>

theorem utterance_keeps_opening_iteration:
  assumes "feedLines s0 ls = Inr (outs, s)"
    and "Some (Country u) \<in> set outs \<or> finalize s = (Some u, s')"
  shows "((\<exists>u0. currentResponse s0 = Some u0 \<and> iteration u = iteration u0
             \<and> timestamp u = timestamp u0 \<and> country u = country u0)
        \<or> (\<exists>pre now line post outs1 s1 before name rest.
              ls = pre @ (now, line) # post \<and> feedLines s0 pre = Inr (outs1, s1)
            \<and> COUNTRY_PATTERN line = Some (before, name, rest)
            \<and> country u = normalizeCountryName name \<and> timestamp u = now
            \<and> iteration u = currentIteration s1))
       \<and> (s0 = new_OutputParser \<longrightarrow> (\<forall>a. Some (Analyst a) \<notin> set outs) \<longrightarrow>
            iteration u = Some (JNumber 1))"
proof -
  have origin: "(\<exists>u0. currentResponse s0 = Some u0 \<and> iteration u = iteration u0
             \<and> timestamp u = timestamp u0 \<and> country u = country u0)
        \<or> (\<exists>pre now line post outs1 s1 before name rest.
              ls = pre @ (now, line) # post \<and> feedLines s0 pre = Inr (outs1, s1)
            \<and> COUNTRY_PATTERN line = Some (before, name, rest)
            \<and> country u = normalizeCountryName name \<and> timestamp u = now
            \<and> iteration u = currentIteration s1)"
    using assms(2)
  proof
    assume "Some (Country u) \<in> set outs"
    from emitted_origin[OF assms(1) this] show ?thesis .
  next
    assume "finalize s = (Some u, s')"
    then have "currentResponse s = Some u" by (auto simp: finalize_def split: option.splits)
    from pending_origin[OF assms(1) this] show ?thesis .
  qed
  have fresh: "iteration u = Some (JNumber 1)"
    if new: "s0 = new_OutputParser" and na: "\<forall>a. Some (Analyst a) \<notin> set outs"
  proof -
    from origin new obtain pre now line post outs1 s1 where
      ls: "ls = pre @ (now, line) # post" and pre: "feedLines s0 pre = Inr (outs1, s1)"
      and it: "iteration u = currentIteration s1"
      by (auto simp: new_OutputParser_def)
    from assms(1) pre obtain o2 where "outs = outs1 @ o2"
      unfolding ls feedLines_append by auto
    with na have "\<forall>a. Some (Analyst a) \<notin> set outs1" by simp
    from iteration_unchanged[OF pre this] it new show ?thesis
      by (simp add: new_OutputParser_def)
  qed
  from origin fresh show ?thesis by blast
qed

text \<open>Scenario B of the specification.\<close>

theorem utterance_keeps_opening_iteration_witness:
  \<open>feedLines new_OutputParser
      [(0, codes ''[EU] said: Line one.''), (1, codes ''Line two continues.''),
       (2, codes ''[USA] said: Reply.'')] =
     Inr ([None, None,
           Some (Country \<lparr>country = codes ''EU'',
                           message = codes ''Line one.'' @ 10 # codes ''Line two continues.'',
                           iteration = Some (JNumber 1), timestamp = 0\<rparr>)],
          new_OutputParser\<lparr>currentResponse :=
            Some \<lparr>country = codes ''USA'', message = codes ''Reply.'',
                  iteration = Some (JNumber 1), timestamp = 2\<rparr>\<rparr>)
   \<and> iteration \<lparr>country = codes ''EU'',
                 message = codes ''Line one.'' @ 10 # codes ''Line two continues.'',
                 iteration = Some (JNumber 1), timestamp = 0\<rparr> = Some (JNumber 1)\<close>
proof -
  let ?u = \<open>\<lparr>country = codes ''EU'',
                 message = codes ''Line one.'' @ 10 # codes ''Line two continues.'',
                 iteration = Some (JNumber 1), timestamp = 0::nat\<rparr>\<close>
  let ?outs = "[None, None, Some (Country ?u)]"
  let ?s = \<open>new_OutputParser\<lparr>currentResponse :=
            Some \<lparr>country = codes ''USA'', message = codes ''Reply.'',
                  iteration = Some (JNumber 1), timestamp = 2\<rparr>\<rparr>\<close>
  have run: \<open>feedLines new_OutputParser
      [(0, codes ''[EU] said: Line one.''), (1, codes ''Line two continues.''),
       (2, codes ''[USA] said: Reply.'')] = Inr (?outs, ?s)\<close>
    by (simp add: eval_defs)
  have mem: "Some (Country ?u) \<in> set ?outs \<or> finalize ?s = (Some ?u, ?s)" by simp
  have na: "\<forall>a. Some (Analyst a) \<notin> set ?outs" by simp
  from utterance_keeps_opening_iteration[OF run mem] na
  have "iteration ?u = Some (JNumber 1)" by blast
  with run show ?thesis by blast
qed

section \<open>Emitted countries are canonical\<close>

text \<open>
  C8. Whatever lines a parser has been fed, an utterance that \<open>parseLine\<close> or \<open>finalize\<close>
  returns has one of the four canonical identifiers \<open>USA\<close>, \<open>China\<close>, \<open>Russia\<close>, \<open>EU\<close> as
  its country.
\<close>

theorem emitted_country_is_canonical:
  assumes "reachable s"
    and "parseLine now s line = Inr (Some (Country u), s') \<or> finalize s = (Some u, s')"
  shows "country u \<in> {codes ''USA'', codes ''China'', codes ''Russia'', codes ''EU''}"
proof -
  have "currentResponse s = Some u"
    using assms(2)
  proof
    assume "parseLine now s line = Inr (Some (Country u), s')"
    with parseLine_summary[of now s line] show ?thesis
      by (cases "currentResponse s") auto
  next
    assume "finalize s = (Some u, s')"
    then show ?thesis by (auto simp: finalize_def split: option.splits)
  qed
  with reachable_pending_canonical[OF assms(1)] show ?thesis
    by (simp add: canonical_names_def)
qed

text \<open>The marker \<open>[usa]\<close> opens an utterance of \<open>USA\<close>, which the next marker emits.\<close>

theorem emitted_country_is_canonical_witness:
  \<open>reachable (new_OutputParser\<lparr>currentResponse :=
       Some \<lparr>country = codes ''USA'', message = codes ''X'', iteration = Some (JNumber 1), timestamp = 0\<rparr>\<rparr>)
   \<and> parseLine 1 (new_OutputParser\<lparr>currentResponse :=
       Some \<lparr>country = codes ''USA'', message = codes ''X'', iteration = Some (JNumber 1), timestamp = 0\<rparr>\<rparr>)
         (codes ''[china] said: Y'') =
       Inr (Some (Country \<lparr>country = codes ''USA'', message = codes ''X'', iteration = Some (JNumber 1), timestamp = 0\<rparr>),
            new_OutputParser\<lparr>currentResponse :=
       Some \<lparr>country = codes ''China'', message = codes ''Y'', iteration = Some (JNumber 1), timestamp = 1\<rparr>\<rparr>)
   \<and> country \<lparr>country = codes ''USA'', message = codes ''X'', iteration = Some (JNumber 1), timestamp = 0\<rparr>
       \<in> {codes ''USA'', codes ''China'', codes ''Russia'', codes ''EU''}\<close>
proof -
  let ?u = \<open>\<lparr>country = codes ''USA'', message = codes ''X'', iteration = Some (JNumber 1), timestamp = 0::nat\<rparr>\<close>
  let ?s = \<open>new_OutputParser\<lparr>currentResponse := Some ?u\<rparr>\<close>
  have a: \<open>parseLine 0 new_OutputParser (codes ''[usa] said: X'') = Inr (None, ?s)\<close>
    by (simp add: eval_defs)
  have r: "reachable ?s" using reachable_parseLine[OF reachable_new a] .
  have b: \<open>parseLine 1 ?s (codes ''[china] said: Y'') =
       Inr (Some (Country ?u), new_OutputParser\<lparr>currentResponse :=
       Some \<lparr>country = codes ''China'', message = codes ''Y'', iteration = Some (JNumber 1), timestamp = 1\<rparr>\<rparr>)\<close>
    by (simp add: eval_defs)
  from emitted_country_is_canonical[OF r disjI1[OF b]] r b show ?thesis by blast
qed

section \<open>An analyst update on one line\<close>

text \<open>
  C9. Specification: a line whose trimmed text starts with \<open>{\<close>, fed while \<open>inJsonBlock\<close>
  is false, makes \<open>parseLine\<close> return nothing, even when the line is by itself a complete
  analyst document; so an analyst update written on one line is never emitted.

  The program returns something on such a line when the line names a country in brackets
  and an utterance is open: \<open>tryParseAnalystJson\<close> has just set \<open>inJsonBlock\<close>, and the
  marker branch of \<open>tryParseCountryResponse\<close>, which lacks the guard \<open>\<not> inJsonBlock\<close> of the
  continuation branch, runs on the JSON line (the defect of C1). After \<open>[EU] said: Hello.\<close>
  the one-line update that names \<open>[USA]\<close> makes the call return the EU utterance and open a
  USA turn whose message is the JSON text without the marker.
\<close>

theorem single_line_json_returns_open_utterance:
  \<open>feedLines new_OutputParser [(0, codes ''[EU] said: Hello.''), (1, update_naming_usa)] =
   Inr ([None,
         Some (Country \<lparr>country = codes ''EU'', message = codes ''Hello.'',
                         iteration = Some (JNumber 1), timestamp = 0\<rparr>)],
        \<lparr>jsonBuffer = update_naming_usa, inJsonBlock = True,
         currentResponse =
           Some \<lparr>country = codes ''USA'',
                 message = codes ''{"iteration": 2, "analysis": " acts", "norm_updates": {}, "reasoning": {}}'',
                 iteration = Some (JNumber 1), timestamp = 1\<rparr>,
         currentIteration = Some (JNumber 1)\<rparr>)
   \<and> JSON_parse update_naming_usa =
       Inr (JObject [(codes ''iteration'', JNumber 2),
                     (codes ''analysis'', JString (codes ''[USA] acts'')),
                     (codes ''norm_updates'', JObject []), (codes ''reasoning'', JObject [])])
   \<and> is_analyst (JObject [(codes ''iteration'', JNumber 2),
                     (codes ''analysis'', JString (codes ''[USA] acts'')),
                     (codes ''norm_updates'', JObject []), (codes ''reasoning'', JObject [])]) =
       Inr True\<close>
  by (simp add: update_naming_usa_def eval_defs)

text \<open>
  Everywhere else the program does what the specification says. A line whose trimmed text
  starts with \<open>{\<close>, fed while \<open>inJsonBlock\<close> is false, never yields an analyst update, and
  the call returns nothing when the line holds no country marker or no utterance is open.
  When the line is a complete JSON document, no later call returns an analyst update before
  the block this line opened has been abandoned (\<open>inJsonBlock\<close> false again): the update
  written on this one line is never emitted.
\<close>

lemma single_line_json_never_emitted:
  assumes "\<not> inJsonBlock s" and "take 1 (trim line) = [123]"
  shows "\<exists>out s1. parseLine now s line = Inr (out, s1)
          \<and> (\<forall>a. out \<noteq> Some (Analyst a))
          \<and> (COUNTRY_PATTERN line = None \<or> currentResponse s = None \<longrightarrow> out = None)
          \<and> (\<forall>doc ls outs s2 i a.
                JSON_parse (trim line) = Inr doc \<longrightarrow> feedLines s1 ls = Inr (outs, s2) \<longrightarrow>
                i < length outs \<longrightarrow> outs ! i = Some (Analyst a) \<longrightarrow>
                (\<exists>k outs' s'. k \<le> i \<and> feedLines s1 (take k ls) = Inr (outs', s')
                    \<and> \<not> inJsonBlock s'))"
proof -
  from parseLine_starts_block[OF assms, of now] obtain s1 where
    p: "parseLine now s line =
          Inr (if COUNTRY_PATTERN line = None then None
               else map_option Country (currentResponse s), s1)"
    and s1: "inJsonBlock s1" "jsonBuffer s1 = trim line" by blast
  define out where
    "out = (if COUNTRY_PATTERN line = None then None
            else map_option Country (currentResponse s))"
  have call: "parseLine now s line = Inr (out, s1)" using p by (simp add: out_def)
  have no_update: "\<forall>a. out \<noteq> Some (Analyst a)"
    by (cases "currentResponse s") (auto simp: out_def)
  have unmarked: "COUNTRY_PATTERN line = None \<or> currentResponse s = None \<longrightarrow> out = None"
    by (auto simp: out_def)
  from assms(2) obtain t where t: "trim line = 123 # t" by (cases "trim line") auto
  have later: "\<forall>doc ls outs s2 i a.
                JSON_parse (trim line) = Inr doc \<longrightarrow> feedLines s1 ls = Inr (outs, s2) \<longrightarrow>
                i < length outs \<longrightarrow> outs ! i = Some (Analyst a) \<longrightarrow>
                (\<exists>k outs' s'. k \<le> i \<and> feedLines s1 (take k ls) = Inr (outs', s')
                    \<and> \<not> inJsonBlock s')"
  proof (intro allI impI)
    fix doc ls outs s2 i a
    assume d: "JSON_parse (trim line) = Inr doc" and f: "feedLines s1 ls = Inr (outs, s2)"
      and i: "i < length outs" "outs ! i = Some (Analyst a)"
    from d t have "foldl step (Value, []) (jsonBuffer s1) = (After doc, [])"
      using object_text_run[of t doc] s1(2) by simp
    then have "foldl step (Value, []) (jsonBuffer s1) = (After doc, [])
         \<or> fst (foldl step (Value, []) (jsonBuffer s1)) = Bad" by simp
    from dead_block_emits_nothing[OF s1(1) this f i]
    show "\<exists>k outs' s'. k \<le> i \<and> feedLines s1 (take k ls) = Inr (outs', s')
            \<and> \<not> inJsonBlock s'" .
  qed
  let ?P = "\<lambda>out s1. parseLine now s line = Inr (out, s1)
          \<and> (\<forall>a. out \<noteq> Some (Analyst a))
          \<and> (COUNTRY_PATTERN line = None \<or> currentResponse s = None \<longrightarrow> out = None)
          \<and> (\<forall>doc ls outs s2 i a.
                JSON_parse (trim line) = Inr doc \<longrightarrow> feedLines s1 ls = Inr (outs, s2) \<longrightarrow>
                i < length outs \<longrightarrow> outs ! i = Some (Analyst a) \<longrightarrow>
                (\<exists>k outs' s'. k \<le> i \<and> feedLines s1 (take k ls) = Inr (outs', s')
                    \<and> \<not> inJsonBlock s'))"
  from call no_update unmarked later have "?P out s1" by - (intro conjI; assumption)
  then have "\<exists>s1. ?P out s1" by (rule exI)
  then show ?thesis by (rule exI)
qed

text \<open>
  An instance: the one-line update is fed to a fresh parser; the next line ends its block,
  and the update emitted six lines later is that of a new block.
\<close>

lemma single_line_json_never_emitted_example:
  \<open>\<not> inJsonBlock new_OutputParser \<and> take 1 (trim single_line_update) = [123]
   \<and> COUNTRY_PATTERN single_line_update = None
   \<and> JSON_parse (trim single_line_update) =
       Inr (JObject [(codes ''iteration'', JNumber 2),
                     (codes ''analysis'', JString (codes ''calm'')),
                     (codes ''norm_updates'', JObject []), (codes ''reasoning'', JObject [])])
   \<and> (\<exists>s1. parseLine 0 new_OutputParser single_line_update = Inr (None, s1)
         \<and> (\<exists>outs s2 a. feedLines s1 later_lines = Inr (outs, s2) \<and> outs ! 6 = Some (Analyst a))
         \<and> (\<exists>k outs' s'. k \<le> 6 \<and> feedLines s1 (take k later_lines) = Inr (outs', s')
               \<and> \<not> inJsonBlock s'))\<close>
proof -
  let ?doc = \<open>JObject [(codes ''iteration'', JNumber 2),
                     (codes ''analysis'', JString (codes ''calm'')),
                     (codes ''norm_updates'', JObject []), (codes ''reasoning'', JObject [])]\<close>
  let ?s1 = \<open>new_OutputParser\<lparr>inJsonBlock := True, jsonBuffer := single_line_update\<rparr>\<close>
  have h1: "\<not> inJsonBlock new_OutputParser" by (simp add: new_OutputParser_def)
  have h2: "take 1 (trim single_line_update) = [123]"
    by (simp add: single_line_update_def eval_defs)
  have h3: "JSON_parse (trim single_line_update) = Inr ?doc"
    by (simp add: single_line_update_def eval_defs)
  have h4: "COUNTRY_PATTERN single_line_update = None"
    by (simp add: single_line_update_def eval_defs)
  have e: "parseLine 0 new_OutputParser single_line_update = Inr (None, ?s1)"
    by (simp add: single_line_update_def eval_defs)
  note run = later_lines_run
  have len: "(6::nat) < length [None, None, None, None, None, None,
         Some (Analyst (JObject [(codes ''iteration'', JNumber 3),
                 (codes ''analysis'', JString (codes ''t'')),
                 (codes ''norm_updates'', JObject []), (codes ''reasoning'', JObject [])]))]"
    by simp
  from single_line_json_never_emitted[OF h1 h2, of 0] obtain out s1 where
    p: "parseLine 0 new_OutputParser single_line_update = Inr (out, s1)"
    and q: "\<forall>doc ls outs s2 i a.
                JSON_parse (trim single_line_update) = Inr doc \<longrightarrow>
                feedLines s1 ls = Inr (outs, s2) \<longrightarrow>
                i < length outs \<longrightarrow> outs ! i = Some (Analyst a) \<longrightarrow>
                (\<exists>k outs' s'. k \<le> i \<and> feedLines s1 (take k ls) = Inr (outs', s')
                    \<and> \<not> inJsonBlock s')"
    by (elim exE conjE) (rule that; assumption)
  from p e have s1: "s1 = ?s1" by simp
  from q[rule_format, OF h3 run[folded s1] len] have
    "\<exists>k outs' s'. k \<le> 6 \<and> feedLines s1 (take k later_lines) = Inr (outs', s')
               \<and> \<not> inJsonBlock s'"
    by simp
  moreover from run s1 have
    "\<exists>outs s2 a. feedLines s1 later_lines = Inr (outs, s2) \<and> outs ! 6 = Some (Analyst a)"
    by simp
  moreover from e s1 have "parseLine 0 new_OutputParser single_line_update = Inr (None, s1)"
    by simp
  ultimately show ?thesis using h1 h2 h3 h4 by blast
qed

section \<open>A marker anywhere in the line\<close>




end
